theory Spec2Isabelle
  imports Main "HOL-Library.Char_ord" "HOL-Library.List_Lexorder" "HOL-Library.Option_ord"
begin

section \<open>SQL values and three-valued logic\<close>

text \<open>
  Both programs keep their data in SQL tables and express every rule as a SQL statement.
  A nullable column is an \<open>option\<close> (\<open>None\<close> is NULL), a table is the list of its rows
  in insertion order, and a condition evaluates to TRUE, FALSE or UNKNOWN
  (\<open>Some True\<close>, \<open>Some False\<close>, \<open>None\<close>). A WHERE, ON or EXISTS keeps a row only
  when its condition is TRUE.
\<close>

type_synonym sql_bool = "bool option"

definition sql_eq :: "'a option \<Rightarrow> 'a option \<Rightarrow> sql_bool" where
  "sql_eq a b = (case a of None \<Rightarrow> None
                 | Some x \<Rightarrow> (case b of None \<Rightarrow> None | Some y \<Rightarrow> Some (x = y)))"

definition sql_ne :: "'a option \<Rightarrow> 'a option \<Rightarrow> sql_bool" where
  "sql_ne a b = (case a of None \<Rightarrow> None
                 | Some x \<Rightarrow> (case b of None \<Rightarrow> None | Some y \<Rightarrow> Some (x \<noteq> y)))"

definition sql_gt :: "'a::linorder option \<Rightarrow> 'a option \<Rightarrow> sql_bool" where
  "sql_gt a b = (case a of None \<Rightarrow> None
                 | Some x \<Rightarrow> (case b of None \<Rightarrow> None | Some y \<Rightarrow> Some (y < x)))"

definition sql_and :: "sql_bool \<Rightarrow> sql_bool \<Rightarrow> sql_bool" where
  "sql_and a b = (if a = Some False \<or> b = Some False then Some False
                  else if a = Some True \<and> b = Some True then Some True else None)"

definition sql_or :: "sql_bool \<Rightarrow> sql_bool \<Rightarrow> sql_bool" where
  "sql_or a b = (if a = Some True \<or> b = Some True then Some True
                 else if a = Some False \<and> b = Some False then Some False else None)"

definition is_null :: "'a option \<Rightarrow> sql_bool" where
  "is_null a = Some (a = None)"

definition is_true :: "sql_bool \<Rightarrow> bool" where
  "is_true b = (b = Some True)"

text \<open>A scalar subquery yields the first row of its result, and NULL when there is none.\<close>

fun scalar :: "'a option list \<Rightarrow> 'a option" where
  "scalar [] = None"
| "scalar (x # _) = x"

section \<open>SCD2.py: the historized target\<close>

text \<open>
  The tables of \<open>scd2_demo\<close>. Timestamps are TEXT columns. \<open>src.cust_id\<close> is an
  INTEGER PRIMARY KEY, so it is never NULL; every other column is nullable.
  \<open>target\<close> and \<open>staging\<close> have the same six columns.
\<close>

type_synonym timestamp = string

record src_row =
  src_cust_id :: int
  src_phone_no :: "int option"
  src_created_date :: "timestamp option"
  src_modified_date :: "timestamp option"

record dim_row =
  cust_id :: "int option"
  phone_no :: "int option"
  created_date :: "timestamp option"
  modified_date :: "timestamp option"
  start_date :: "timestamp option"
  end_date :: "timestamp option"

text \<open>Steps 4 and 7: INSERT INTO staging SELECT cust_id, phone_no, created_date,
  modified_date, modified_date, NULL FROM src. Step 7 runs DELETE FROM staging first.\<close>

definition staging_of :: "src_row \<Rightarrow> dim_row" where
  "staging_of r = \<lparr>cust_id = Some (src_cust_id r), phone_no = src_phone_no r,
     created_date = src_created_date r, modified_date = src_modified_date r,
     start_date = src_modified_date r, end_date = None\<rparr>"

definition load_staging :: "src_row list \<Rightarrow> dim_row list \<Rightarrow> dim_row list" where
  "load_staging src staging = staging @ map staging_of src"

definition reload_staging :: "src_row list \<Rightarrow> dim_row list \<Rightarrow> dim_row list" where
  "reload_staging src staging = load_staging src []"

text \<open>Step 8. The condition shared by the scalar subquery and the EXISTS:
  s.cust_id = target.cust_id AND s.phone_no != target.phone_no.\<close>

definition changed :: "dim_row \<Rightarrow> dim_row \<Rightarrow> bool" where
  "changed s t = is_true (sql_and (sql_eq (cust_id s) (cust_id t))
                                  (sql_ne (phone_no s) (phone_no t)))"

definition close_row :: "dim_row list \<Rightarrow> dim_row \<Rightarrow> dim_row" where
  "close_row staging t =
     (if end_date t = None \<and> filter (\<lambda>s. changed s t) staging \<noteq> []
      then t\<lparr>end_date := scalar (map modified_date (filter (\<lambda>s. changed s t) staging))\<rparr>
      else t)"

definition close_out :: "dim_row list \<Rightarrow> dim_row list \<Rightarrow> dim_row list" where
  "close_out staging target = map (close_row staging) target"

text \<open>Steps 5 and 9. staging s LEFT JOIN target t ON s.cust_id = t.cust_id AND
  t.end_date IS NULL: a staging row with no match is kept once, with every column of
  \<open>t\<close> NULL. WHERE t.cust_id IS NULL OR t.phone_no != s.phone_no. The rows selected are
  computed on the target as it is before the insert and appended to it.\<close>

definition join_on :: "dim_row \<Rightarrow> dim_row \<Rightarrow> bool" where
  "join_on s t = is_true (sql_and (sql_eq (cust_id s) (cust_id t)) (is_null (end_date t)))"

definition join_rows :: "dim_row \<Rightarrow> dim_row list \<Rightarrow> (dim_row \<times> dim_row option) list" where
  "join_rows s target = (case filter (join_on s) target of
                           [] \<Rightarrow> [(s, None)]
                         | ms \<Rightarrow> map (\<lambda>t. (s, Some t)) ms)"

definition left_join :: "dim_row list \<Rightarrow> dim_row list \<Rightarrow> (dim_row \<times> dim_row option) list" where
  "left_join staging target = concat (map (\<lambda>s. join_rows s target) staging)"

definition col :: "(dim_row \<Rightarrow> 'a option) \<Rightarrow> dim_row option \<Rightarrow> 'a option" where
  "col f t = (case t of None \<Rightarrow> None | Some r \<Rightarrow> f r)"

definition new_version :: "dim_row \<times> dim_row option \<Rightarrow> bool" where
  "new_version st = is_true (sql_or (is_null (col cust_id (snd st)))
                                    (sql_ne (col phone_no (snd st)) (phone_no (fst st))))"

definition insert_new :: "dim_row list \<Rightarrow> dim_row list \<Rightarrow> dim_row list" where
  "insert_new staging target = target @ map fst (filter new_version (left_join staging target))"

text \<open>The version-apply step: close-out (step 8) followed by insert (step 9).\<close>

definition apply_versions :: "dim_row list \<Rightarrow> dim_row list \<Rightarrow> dim_row list" where
  "apply_versions staging target = insert_new staging (close_out staging target)"

subsection \<open>Notions used by the claims\<close>

text \<open>A staging table is a snapshot when it holds one row per key and every row has a
  key, a modified timestamp and a null end marker.\<close>

definition staging_snapshot :: "dim_row list \<Rightarrow> bool" where
  "staging_snapshot staging \<longleftrightarrow>
     distinct (map cust_id staging) \<and>
     (\<forall>s \<in> set staging. cust_id s \<noteq> None \<and> modified_date s \<noteq> None \<and> end_date s = None)"

text \<open>The keys of the current versions, one entry per current row; the target has a
  single current version per key when no key occurs twice.\<close>

definition current_keys :: "dim_row list \<Rightarrow> int option list" where
  "current_keys target = map cust_id (filter (\<lambda>t. end_date t = None \<and> cust_id t \<noteq> None) target)"

definition single_current :: "dim_row list \<Rightarrow> bool" where
  "single_current target \<longleftrightarrow> distinct (current_keys target)"

text \<open>A target is settled for a staging table when the close-out condition holds for no
  current row.\<close>

definition settled :: "dim_row list \<Rightarrow> dim_row list \<Rightarrow> bool" where
  "settled staging target \<longleftrightarrow>
     (\<forall>t \<in> set target. end_date t = None \<longrightarrow> (\<forall>s \<in> set staging. \<not> changed s t))"

text \<open>The versions of a key in table order, and in the order of their start timestamps
  (a stable sort: versions with equal start keep their table order). A list of versions
  is contiguous when each version but the last is closed and ends where the next one
  starts, and the last one is current.\<close>

definition versions :: "int \<Rightarrow> dim_row list \<Rightarrow> dim_row list" where
  "versions k target = filter (\<lambda>t. cust_id t = Some k) target"

definition history :: "int \<Rightarrow> dim_row list \<Rightarrow> dim_row list" where
  "history k target = sort_key start_date (versions k target)"

definition follows :: "dim_row \<Rightarrow> dim_row \<Rightarrow> bool" where
  "follows a b \<longleftrightarrow> end_date a \<noteq> None \<and> end_date a = start_date b"

fun contiguous :: "dim_row list \<Rightarrow> bool" where
  "contiguous [] = True"
| "contiguous [v] = (end_date v = None)"
| "contiguous (a # b # vs) = (follows a b \<and> contiguous (b # vs))"

definition contiguity :: "dim_row list \<Rightarrow> bool" where
  "contiguity target \<longleftrightarrow>
     (\<forall>t \<in> set target. case cust_id t of None \<Rightarrow> True | Some k \<Rightarrow> contiguous (history k target))"

text \<open>Conditions on the tables that the statements do not check: every staging row has
  a modified timestamp; every source row has one; and no source row's modified timestamp
  is earlier than the start of the current version of its key.\<close>

definition has_modified_dates :: "dim_row list \<Rightarrow> bool" where
  "has_modified_dates staging \<longleftrightarrow> (\<forall>s \<in> set staging. modified_date s \<noteq> None)"

definition src_has_modified_dates :: "src_row list \<Rightarrow> bool" where
  "src_has_modified_dates src \<longleftrightarrow> (\<forall>r \<in> set src. src_modified_date r \<noteq> None)"

definition not_before_current :: "src_row list \<Rightarrow> dim_row list \<Rightarrow> bool" where
  "not_before_current src target \<longleftrightarrow>
     (\<forall>r \<in> set src. \<forall>t \<in> set target.
        cust_id t = Some (src_cust_id r) \<and> end_date t = None \<longrightarrow>
        start_date t \<le> src_modified_date r)"

subsection \<open>The run of \<open>scd2_demo\<close>\<close>

text \<open>Step 3 inserts \<open>initial_data\<close> into \<open>src\<close>; both timestamps default to
  CURRENT_TIMESTAMP, the parameter \<open>now\<close>. Step 6 is UPDATE src SET phone_no = 666
  WHERE cust_id = 2, which leaves the timestamps as they are.\<close>

definition initial_data :: "(int \<times> int) list" where
  "initial_data = [(1, 9876543210), (2, 9123456780), (3, 9012345678),
                   (4, 9345678901), (5, 9988776655), (6, 666666)]"

definition insert_src :: "timestamp \<Rightarrow> (int \<times> int) list \<Rightarrow> src_row list \<Rightarrow> src_row list" where
  "insert_src now rows src = src @
     map (\<lambda>(k, p). \<lparr>src_cust_id = k, src_phone_no = Some p,
                     src_created_date = Some now, src_modified_date = Some now\<rparr>) rows"

definition update_phone :: "src_row list \<Rightarrow> src_row list" where
  "update_phone src = map (\<lambda>r. if src_cust_id r = 2 then r\<lparr>src_phone_no := Some 666\<rparr> else r) src"

text \<open>The state of the three tables after step 5 and after step 9.\<close>

definition demo_src :: "timestamp \<Rightarrow> src_row list" where
  "demo_src now = insert_src now initial_data []"

definition demo_target :: "timestamp \<Rightarrow> dim_row list" where
  "demo_target now = insert_new (load_staging (demo_src now) []) []"

definition demo_staging :: "timestamp \<Rightarrow> dim_row list" where
  "demo_staging now =
     reload_staging (update_phone (demo_src now)) (load_staging (demo_src now) [])"

definition scd2_demo :: "timestamp \<Rightarrow> dim_row list" where
  "scd2_demo now = apply_versions (demo_staging now) (demo_target now)"

subsection \<open>Example tables\<close>

definition t0 :: timestamp where "t0 = ''2025-07-02 10:00:00''"

definition t1 :: timestamp where "t1 = ''2025-07-03 10:00:00''"

definition version :: "int \<Rightarrow> int option \<Rightarrow> timestamp \<Rightarrow> dim_row" where
  "version k p t = \<lparr>cust_id = Some k, phone_no = p, created_date = Some t0,
     modified_date = Some t, start_date = Some t, end_date = None\<rparr>"

text \<open>A staging table with two rows for key 1, which differ in the phone number.\<close>

definition two_rows_one_key :: "dim_row list" where
  "two_rows_one_key = [version 1 (Some 5) t1, version 1 (Some 6) t1]"

section \<open>staging.py: incremental load with a control table\<close>

text \<open>
  The statements of \<open>staging.py\<close> name four tables whose declarations are not part of
  the repository. Their columns are the ones the statements use: \<open>src_jun25\<close>,
  \<open>stg_jun25\<close> and \<open>tgt_jun25\<close> have \<open>col1_id\<close>, \<open>col2_desc\<close>, \<open>col3_desc\<close>,
  \<open>created_date\<close> and \<open>modified_date\<close>; \<open>control_table\<close> has \<open>table_name\<close>,
  \<open>max_created_date\<close> and \<open>max_modified_date\<close>. An INSERT that does not name the two
  timestamp columns gives them the column defaults, which are parameters here; an UPDATE
  changes the columns it assigns and no other.
\<close>

record jun25_row =
  col1_id :: int
  col2_desc :: "string option"
  col3_desc :: "string option"
  jun25_created_date :: "timestamp option"
  jun25_modified_date :: "timestamp option"

record control_row =
  table_name :: string
  max_created_date :: "timestamp option"
  max_modified_date :: "timestamp option"

record db =
  src_jun25 :: "jun25_row list"
  stg_jun25 :: "jun25_row list"
  tgt_jun25 :: "jun25_row list"
  control_table :: "control_row list"

record defaults =
  default_created_date :: "timestamp option"
  default_modified_date :: "timestamp option"

subsection \<open>The connection: transactions, errors and the log\<close>

text \<open>
  pymysql runs with autocommit off: a statement changes the pending state of the open
  transaction, \<open>commit\<close> makes it persistent and \<open>rollback\<close> discards it back to the
  last commit. An \<open>execute\<close> call can raise, and so can \<open>rollback\<close>; \<open>cursor\<close>,
  \<open>commit\<close> and the logging calls are taken not to raise. An error carries the text
  that \<open>str\<close> gives for it. Whether a call raises, and which error, is given by a fault
  oracle: \<open>None\<close> when the call succeeds, \<open>Some e\<close> when it raises \<open>e\<close>. A call that
  raises has no effect.
\<close>

datatype error = StorageError string

fun str :: "error \<Rightarrow> string" where
  "str (StorageError text) = text"

datatype level = INFO | ERROR

record session =
  committed :: db
  pending :: db
  log :: "(level \<times> string) list"

type_synonym 'a py = "session \<Rightarrow> (error + 'a) \<times> session"

definition seq :: "unit py \<Rightarrow> 'a py \<Rightarrow> 'a py" where
  "seq p q c = (case p c of (Inl e, c') \<Rightarrow> (Inl e, c') | (Inr _, c') \<Rightarrow> q c')"

fun block :: "unit py list \<Rightarrow> unit py" where
  "block [] = (\<lambda>c. (Inr (), c))"
| "block (p # ps) = seq p (block ps)"

definition try_except :: "unit py \<Rightarrow> (error \<Rightarrow> unit py) \<Rightarrow> unit py" where
  "try_except body handler c =
     (case body c of (Inl e, c') \<Rightarrow> handler e c' | (Inr u, c') \<Rightarrow> (Inr u, c'))"

definition execute :: "error option \<Rightarrow> (db \<Rightarrow> db) \<Rightarrow> unit py" where
  "execute raises stmt c =
     (case raises of Some e \<Rightarrow> (Inl e, c)
      | None \<Rightarrow> (Inr (), c\<lparr>pending := stmt (pending c)\<rparr>))"

definition commit :: "unit py" where
  "commit c = (Inr (), c\<lparr>committed := pending c\<rparr>)"

definition rollback :: "error option \<Rightarrow> unit py" where
  "rollback raises c =
     (case raises of Some e \<Rightarrow> (Inl e, c)
      | None \<Rightarrow> (Inr (), c\<lparr>pending := committed c\<rparr>))"

definition logging_info :: "string \<Rightarrow> unit py" where
  "logging_info msg c = (Inr (), c\<lparr>log := log c @ [(INFO, msg)]\<rparr>)"

definition logging_error :: "string \<Rightarrow> unit py" where
  "logging_error msg c = (Inr (), c\<lparr>log := log c @ [(ERROR, msg)]\<rparr>)"

text \<open>A SELECT run only to print a table reads the database and leaves it as it is.\<close>

definition select_all :: "db \<Rightarrow> db" where
  "select_all d = d"

subsection \<open>The statements\<close>

text \<open>MAX over a column: NULLs are skipped, and the result is NULL when no value is left.\<close>

definition sql_max :: "'a::linorder option list \<Rightarrow> 'a option" where
  "sql_max xs = fold (\<lambda>x acc. case x of None \<Rightarrow> acc
                    | Some v \<Rightarrow> (case acc of None \<Rightarrow> Some v | Some m \<Rightarrow> Some (max m v))) xs None"

text \<open>INSERT INTO stg_jun25 (col1_id, col2_desc, col3_desc) SELECT col1_id, col2_desc,
  col3_desc FROM src_jun25.\<close>

definition staged :: "defaults \<Rightarrow> jun25_row \<Rightarrow> jun25_row" where
  "staged dflt r = \<lparr>col1_id = col1_id r, col2_desc = col2_desc r, col3_desc = col3_desc r,
     jun25_created_date = default_created_date dflt,
     jun25_modified_date = default_modified_date dflt\<rparr>"

definition insert_stg_from_src :: "defaults \<Rightarrow> db \<Rightarrow> db" where
  "insert_stg_from_src dflt d = d\<lparr>stg_jun25 := stg_jun25 d @ map (staged dflt) (src_jun25 d)\<rparr>"

text \<open>INSERT INTO control_table VALUES ('tgt_jun25', CURRENT_TIMESTAMP(), CURRENT_TIMESTAMP()).\<close>

definition insert_control :: "timestamp \<Rightarrow> db \<Rightarrow> db" where
  "insert_control now d = d\<lparr>control_table := control_table d @
     [\<lparr>table_name = ''tgt_jun25'', max_created_date = Some now, max_modified_date = Some now\<rparr>]\<rparr>"

text \<open>UPDATE control_table SET max_created_date = (SELECT MAX(created_date) FROM t),
  max_modified_date = (SELECT MAX(modified_date) FROM t) WHERE table_name = 'tgt_jun25',
  with \<open>t\<close> the staging table after the staging load and the target table after the
  target load.\<close>

definition set_watermark :: "jun25_row list \<Rightarrow> control_row \<Rightarrow> control_row" where
  "set_watermark rows c =
     (if table_name c = ''tgt_jun25''
      then c\<lparr>max_created_date := sql_max (map jun25_created_date rows),
             max_modified_date := sql_max (map jun25_modified_date rows)\<rparr>
      else c)"

definition update_control_from_stg :: "db \<Rightarrow> db" where
  "update_control_from_stg d =
     d\<lparr>control_table := map (set_watermark (stg_jun25 d)) (control_table d)\<rparr>"

definition update_control_from_tgt :: "db \<Rightarrow> db" where
  "update_control_from_tgt d =
     d\<lparr>control_table := map (set_watermark (tgt_jun25 d)) (control_table d)\<rparr>"

text \<open>UPDATE src_jun25 SET col2_desc = 'Joshua', col3_desc = 'Pro player' WHERE col1_id = 4.\<close>

definition update_src :: "db \<Rightarrow> db" where
  "update_src d = d\<lparr>src_jun25 :=
     map (\<lambda>r. if col1_id r = 4
               then r\<lparr>col2_desc := Some ''Joshua'', col3_desc := Some ''Pro player''\<rparr> else r)
         (src_jun25 d)\<rparr>"

text \<open>INSERT INTO stg_jun25 (col1_id, col2_desc, col3_desc) SELECT s.col1_id, s.col2_desc,
  s.col3_desc FROM src_jun25 s JOIN control_table c ON c.table_name = 'tgt_jun25'
  WHERE s.created_date > c.max_created_date OR s.modified_date > c.max_modified_date.\<close>

definition qualifies :: "jun25_row \<Rightarrow> control_row \<Rightarrow> bool" where
  "qualifies s c = is_true (sql_or (sql_gt (jun25_created_date s) (max_created_date c))
                                   (sql_gt (jun25_modified_date s) (max_modified_date c)))"

definition delta :: "db \<Rightarrow> jun25_row list" where
  "delta d = concat (map (\<lambda>s. map (\<lambda>c. s)
       (filter (\<lambda>c. table_name c = ''tgt_jun25'' \<and> qualifies s c) (control_table d)))
       (src_jun25 d))"

definition insert_stg_delta :: "defaults \<Rightarrow> db \<Rightarrow> db" where
  "insert_stg_delta dflt d = d\<lparr>stg_jun25 := stg_jun25 d @ map (staged dflt) (delta d)\<rparr>"

text \<open>INSERT INTO tgt_jun25 (col1_id, col2_desc, col3_desc) SELECT col1_id, col2_desc,
  col3_desc FROM stg_jun25 ON DUPLICATE KEY UPDATE col2_desc = VALUES(col2_desc),
  col3_desc = VALUES(col3_desc). The rows are taken one by one in the order of the
  staging table.\<close>

text \<open>Modelled from the spec: the declaration of \<open>tgt_jun25\<close> is missing, and with it the
  key that ON DUPLICATE KEY refers to. The non-historized target has one row per key
  (section 3 of the specification), so \<open>col1_id\<close> is taken as the primary key of
  \<open>tgt_jun25\<close>: a staging row whose \<open>col1_id\<close> is in the target updates that row, any
  other is inserted.\<close>

definition upsert_row :: "defaults \<Rightarrow> jun25_row \<Rightarrow> jun25_row list \<Rightarrow> jun25_row list" where
  "upsert_row dflt s target =
     (if col1_id s \<in> col1_id ` set target
      then map (\<lambda>t. if col1_id t = col1_id s
                     then t\<lparr>col2_desc := col2_desc s, col3_desc := col3_desc s\<rparr> else t) target
      else target @ [staged dflt s])"

definition upsert_tgt_from_stg :: "defaults \<Rightarrow> db \<Rightarrow> db" where
  "upsert_tgt_from_stg dflt d = d\<lparr>tgt_jun25 := fold (upsert_row dflt) (stg_jun25 d) (tgt_jun25 d)\<rparr>"

subsection \<open>The steps\<close>

text \<open>Each step is one try block with one handler, \<open>except Exception as e\<close>, which
  logs the step's message followed by the text of \<open>e\<close> and then calls \<open>rollback\<close>.
  The rollback runs inside the handler, so an error it raises goes to the caller of the
  step. The oracle \<open>raises\<close> of a step is indexed by the calls of the step that can
  raise: its \<open>execute\<close> calls in order, counted from 0, and after them the rollback of
  the handler. The result of a step is \<open>Inr ()\<close> when the function returns and \<open>Inl e\<close>
  when it raises \<open>e\<close> to its caller.\<close>

definition handler :: "string \<Rightarrow> error option \<Rightarrow> error \<Rightarrow> unit py" where
  "handler msg raises e = block [logging_error (msg @ str e), rollback raises]"

definition insert_data_to_staging :: "(nat \<Rightarrow> error option) \<Rightarrow> defaults \<Rightarrow> unit py" where
  "insert_data_to_staging raises dflt =
     try_except
       (block [execute (raises 0) (insert_stg_from_src dflt),
               commit,
               logging_info ''Data inserted into staging table successfully.'',
               execute (raises 1) select_all])
       (handler ''Error inserting data into staging: '' (raises 2))"

definition insert_data_to_control :: "(nat \<Rightarrow> error option) \<Rightarrow> timestamp \<Rightarrow> unit py" where
  "insert_data_to_control raises now =
     try_except
       (block [execute (raises 0) (insert_control now),
               commit,
               logging_info ''Data inserted into control table successfully.'',
               execute (raises 1) select_all])
       (handler ''Error inserting data into control table: '' (raises 2))"

definition update_control_table_stg :: "(nat \<Rightarrow> error option) \<Rightarrow> unit py" where
  "update_control_table_stg raises =
     try_except
       (block [execute (raises 0) update_control_from_stg,
               commit,
               logging_info ''Control table updated after staging load.'',
               execute (raises 1) select_all,
               execute (raises 2) update_src,
               execute (raises 3) select_all,
               commit,
               logging_info ''Source table updated to simulate a change.''])
       (handler ''Error updating control table after staging: '' (raises 4))"

definition insert_into_stg :: "(nat \<Rightarrow> error option) \<Rightarrow> defaults \<Rightarrow> unit py" where
  "insert_into_stg raises dflt =
     try_except
       (block [execute (raises 0) (insert_stg_delta dflt),
               commit,
               logging_info ''New or changed data inserted into staging table successfully.'',
               execute (raises 1) select_all])
       (handler ''Error inserting new data into staging: '' (raises 2))"

definition push_to_target_table :: "(nat \<Rightarrow> error option) \<Rightarrow> defaults \<Rightarrow> unit py" where
  "push_to_target_table raises dflt =
     try_except
       (block [execute (raises 0) (upsert_tgt_from_stg dflt),
               commit,
               logging_info ''Data pushed to target table successfully.'',
               execute (raises 1) select_all])
       (handler ''Error pushing data to target table: '' (raises 2))"

definition update_control_table_tgt :: "(nat \<Rightarrow> error option) \<Rightarrow> unit py" where
  "update_control_table_tgt raises =
     try_except
       (block [execute (raises 0) update_control_from_tgt,
               commit,
               logging_info ''Control table updated after target load.''])
       (handler ''Error updating control table after target load: '' (raises 1))"

text \<open>The main flow: the six steps in order. A step that has caught an error and rolled
  back returns like one that succeeded, so the next step runs; a step that raises ends
  the flow. \<open>raises n\<close> is the oracle of step \<open>n\<close>.\<close>

definition main :: "(nat \<Rightarrow> nat \<Rightarrow> error option) \<Rightarrow> defaults \<Rightarrow> timestamp \<Rightarrow> unit py" where
  "main raises dflt now =
     block [insert_data_to_staging (raises 0) dflt,
            insert_data_to_control (raises 1) now,
            update_control_table_stg (raises 2),
            insert_into_stg (raises 3) dflt,
            push_to_target_table (raises 4) dflt,
            update_control_table_tgt (raises 5)]"

subsection \<open>Notions used by the claims\<close>

text \<open>A session is clean when no transaction is open: its pending state is the committed
  one.\<close>

definition clean :: "session \<Rightarrow> bool" where
  "clean c \<longleftrightarrow> pending c = committed c"

text \<open>What a step does with an error. \<open>first_error\<close> is the error of the first of the
  step's \<open>execute\<close> calls that raises. \<open>outcome\<close> is the result of the step: it returns
  unless an error was caught and the rollback of the handler raises. \<open>error_entry\<close> is
  what the handler adds to the log, and \<open>errors_logged\<close> are the entries of a log at
  level ERROR. \<open>catches msg positions n raises c r\<close> says that \<open>r\<close> is the result of a
  step, with message \<open>msg\<close>, \<open>execute\<close> calls \<open>positions\<close> and rollback at \<open>n\<close>, that
  handles the first error as the handler does: the result is the outcome; the ERROR
  entries of the log are the earlier ones and the entry of the error, if there is one;
  and when an error was caught and the rollback succeeds, no transaction is open.\<close>

fun first_error :: "(nat \<Rightarrow> error option) \<Rightarrow> nat list \<Rightarrow> error option" where
  "first_error raises [] = None"
| "first_error raises (i # positions) =
     (case raises i of Some e \<Rightarrow> Some e | None \<Rightarrow> first_error raises positions)"

definition outcome :: "error option \<Rightarrow> error option \<Rightarrow> error + unit" where
  "outcome caught rollback_raises =
     (case caught of None \<Rightarrow> Inr ()
      | Some e \<Rightarrow> (case rollback_raises of None \<Rightarrow> Inr () | Some e' \<Rightarrow> Inl e'))"

definition error_entry :: "string \<Rightarrow> error option \<Rightarrow> (level \<times> string) list" where
  "error_entry msg caught = (case caught of None \<Rightarrow> [] | Some e \<Rightarrow> [(ERROR, msg @ str e)])"

definition errors_logged :: "session \<Rightarrow> (level \<times> string) list" where
  "errors_logged c = filter (\<lambda>entry. fst entry = ERROR) (log c)"

definition catches ::
  "string \<Rightarrow> nat list \<Rightarrow> nat \<Rightarrow> (nat \<Rightarrow> error option) \<Rightarrow> session \<Rightarrow>
   (error + unit) \<times> session \<Rightarrow> bool" where
  "catches msg positions n raises c r \<longleftrightarrow>
     fst r = outcome (first_error raises positions) (raises n) \<and>
     errors_logged (snd r) = errors_logged c @ error_entry msg (first_error raises positions) \<and>
     (first_error raises positions \<noteq> None \<and> raises n = None \<longrightarrow> clean (snd r))"

text \<open>The rollbacks of the six handlers all succeed.\<close>

definition rollbacks_succeed :: "(nat \<Rightarrow> nat \<Rightarrow> error option) \<Rightarrow> bool" where
  "rollbacks_succeed raises \<longleftrightarrow>
     raises 0 2 = None \<and> raises 1 2 = None \<and> raises 2 4 = None \<and>
     raises 3 2 = None \<and> raises 4 2 = None \<and> raises 5 1 = None"

text \<open>The staging row that the upsert applies last for a key.\<close>

definition last_staged :: "int \<Rightarrow> jun25_row list \<Rightarrow> jun25_row option" where
  "last_staged k staging = find (\<lambda>s. col1_id s = k) (rev staging)"

text \<open>The entity's watermark is ahead of a source row when the row qualifies for the
  incremental load by its created or by its modified timestamp.\<close>

definition newer_than :: "jun25_row \<Rightarrow> control_row \<Rightarrow> bool" where
  "newer_than s w \<longleftrightarrow>
     is_true (sql_gt (jun25_created_date s) (max_created_date w)) \<or>
     is_true (sql_gt (jun25_modified_date s) (max_modified_date w))"

text \<open>What the upsert makes of a target row that is already there: the attributes of the
  last staging row for its key, when staging has one.\<close>

definition over :: "jun25_row list \<Rightarrow> jun25_row \<Rightarrow> jun25_row" where
  "over staging t = (case last_staged (col1_id t) staging of None \<Rightarrow> t
     | Some s \<Rightarrow> t\<lparr>col2_desc := col2_desc s, col3_desc := col3_desc s\<rparr>)"

subsection \<open>Example run\<close>

text \<open>Two source rows created at \<open>t0\<close>, the second modified at \<open>t1\<close>. The staging table
  is loaded at \<open>t0\<close>, the control row is inserted at \<open>t1\<close>, then the watermark is
  updated from staging.\<close>

definition never :: "nat \<Rightarrow> error option" where
  "never i = None"

definition lost_connection :: error where
  "lost_connection = StorageError ''Lost connection to MySQL server during query''"

definition only :: "nat \<Rightarrow> nat \<Rightarrow> error option" where
  "only n i = (if i = n then Some lost_connection else None)"

definition at_t0 :: defaults where
  "at_t0 = \<lparr>default_created_date = Some t0, default_modified_date = Some t0\<rparr>"

definition example_db :: db where
  "example_db = \<lparr>src_jun25 =
       [\<lparr>col1_id = 1, col2_desc = Some ''Ann'', col3_desc = Some ''Player'',
          jun25_created_date = Some t0, jun25_modified_date = Some t0\<rparr>,
        \<lparr>col1_id = 4, col2_desc = Some ''Bob'', col3_desc = Some ''Coach'',
          jun25_created_date = Some t0, jun25_modified_date = Some t1\<rparr>],
     stg_jun25 = [], tgt_jun25 = [], control_table = []\<rparr>"

definition session0 :: session where
  "session0 = \<lparr>committed = example_db, pending = example_db, log = []\<rparr>"

definition session1 :: session where
  "session1 = snd (insert_data_to_staging never at_t0 session0)"

definition session2 :: session where
  "session2 = snd (insert_data_to_control never t1 session1)"

definition session3 :: session where
  "session3 = snd (update_control_table_stg never session2)"

definition session4 :: session where
  "session4 = snd (insert_into_stg never at_t0 session3)"

section \<open>Properties of the close-out and the insert\<close>

lemma changed_iff:
  "changed s t \<longleftrightarrow> (\<exists>k. cust_id s = Some k \<and> cust_id t = Some k) \<and>
     (\<exists>p q. phone_no s = Some p \<and> phone_no t = Some q \<and> p \<noteq> q)"
  by (cases "cust_id s"; cases "cust_id t"; cases "phone_no s"; cases "phone_no t")
     (auto simp: changed_def sql_eq_def sql_ne_def sql_and_def is_true_def)

lemma join_on_iff:
  "join_on s t \<longleftrightarrow> (\<exists>k. cust_id s = Some k \<and> cust_id t = Some k) \<and> end_date t = None"
  by (cases "cust_id s"; cases "cust_id t"; cases "end_date t")
     (auto simp: join_on_def sql_eq_def sql_and_def is_null_def is_true_def)

lemma new_version_None [simp]: "new_version (s, None)"
  by (simp add: new_version_def col_def sql_or_def is_null_def is_true_def)

lemma new_version_Some:
  "new_version (s, Some t) \<longleftrightarrow> cust_id t = None \<or>
     (\<exists>p q. phone_no t = Some p \<and> phone_no s = Some q \<and> p \<noteq> q)"
  by (cases "cust_id t"; cases "phone_no s"; cases "phone_no t")
     (auto simp: new_version_def col_def sql_ne_def sql_or_def is_null_def is_true_def)

lemma new_version_joined:
  "join_on s t \<Longrightarrow> new_version (s, Some t) \<longleftrightarrow> changed s t"
  by (auto simp: join_on_iff new_version_Some changed_iff)

lemma not_changed_self [simp]: "\<not> changed s s"
  by (auto simp: changed_iff)

lemma close_row_cust_id [simp]: "cust_id (close_row staging t) = cust_id t"
  by (simp add: close_row_def)

lemma close_row_phone_no [simp]: "phone_no (close_row staging t) = phone_no t"
  by (simp add: close_row_def)

lemma close_row_start_date [simp]: "start_date (close_row staging t) = start_date t"
  by (simp add: close_row_def)

lemma close_row_closed: "end_date t \<noteq> None \<Longrightarrow> close_row staging t = t"
  by (auto simp: close_row_def)

lemma close_row_unchanged: "\<forall>s \<in> set staging. \<not> changed s t \<Longrightarrow> close_row staging t = t"
  by (simp add: close_row_def filter_empty_conv)

lemma scalar_filter_in:
  "filter P xs \<noteq> [] \<Longrightarrow> \<exists>x \<in> set xs. P x \<and> scalar (map f (filter P xs)) = f x"
  by (induction xs) auto

lemma close_row_current:
  assumes "\<forall>s \<in> set staging. modified_date s \<noteq> None"
    and "end_date (close_row staging t) = None"
  shows "end_date t = None \<and> (\<forall>s \<in> set staging. \<not> changed s t)"
proof (cases "end_date t = None \<and> filter (\<lambda>s. changed s t) staging \<noteq> []")
  case True
  then obtain s where "s \<in> set staging"
    and "scalar (map modified_date (filter (\<lambda>s. changed s t) staging)) = modified_date s"
    using scalar_filter_in [of "\<lambda>s. changed s t" staging modified_date] by blast
  with True assms show ?thesis by (auto simp: close_row_def)
next
  case False
  with assms(2) show ?thesis by (auto simp: close_row_def filter_empty_conv)
qed

lemma settled_close_out:
  "\<forall>s \<in> set staging. modified_date s \<noteq> None \<Longrightarrow> settled staging (close_out staging target)"
  unfolding settled_def close_out_def
  using close_row_current changed_iff
  by (auto simp: changed_iff dest!: close_row_current) 

lemma close_out_settled: "settled staging target \<Longrightarrow> close_out staging target = target"
  unfolding settled_def close_out_def
  by (intro map_idI) (metis close_row_closed close_row_unchanged)

lemma join_rows_settled:
  assumes "\<forall>t \<in> set target. end_date t = None \<longrightarrow> \<not> changed s t"
  shows "map fst (filter new_version (join_rows s target)) =
           (if filter (join_on s) target = [] then [s] else [])"
proof (cases "filter (join_on s) target")
  case Nil
  then show ?thesis by (simp add: join_rows_def)
next
  case (Cons m ms)
  have "\<not> new_version (s, Some t)" if "t \<in> set (m # ms)" for t
  proof -
    from that have "t \<in> set (filter (join_on s) target)" by (simp only: Cons)
    then have j: "join_on s t" and "t \<in> set target" by simp_all
    with assms show ?thesis by (simp add: new_version_joined join_on_iff)
  qed
  then have "filter new_version (map (\<lambda>t. (s, Some t)) (m # ms)) = []"
    by (simp add: filter_empty_conv)
  with Cons show ?thesis by (simp add: join_rows_def)
qed

lemma inserted_settled:
  assumes "settled staging target"
  shows "set rows \<subseteq> set staging \<Longrightarrow>
     map fst (filter new_version (left_join rows target)) =
       filter (\<lambda>s. filter (join_on s) target = []) rows"
proof (induction rows)
  case Nil
  then show ?case by (simp add: left_join_def)
next
  case (Cons s rows)
  from Cons.prems assms have "\<forall>t \<in> set target. end_date t = None \<longrightarrow> \<not> changed s t"
    by (auto simp: settled_def)
  from join_rows_settled [OF this] Cons show ?case
    by (simp add: left_join_def)
qed

lemma insert_new_settled:
  "settled staging target \<Longrightarrow>
   insert_new staging target = target @ filter (\<lambda>s. filter (join_on s) target = []) staging"
  by (simp add: insert_new_def inserted_settled)

lemma same_key_same_row:
  "distinct (map cust_id staging) \<Longrightarrow> s \<in> set staging \<Longrightarrow> s' \<in> set staging \<Longrightarrow>
   cust_id s = cust_id s' \<Longrightarrow> s = s'"
  by (meson distinct_map inj_onD)

lemma settled_append:
  "settled staging (xs @ ys) \<longleftrightarrow> settled staging xs \<and> settled staging ys"
  by (auto simp: settled_def)

lemma settled_staging_rows:
  assumes "distinct (map cust_id staging)" "set rows \<subseteq> set staging"
  shows "settled staging rows"
  unfolding settled_def
proof (intro ballI impI)
  fix t s assume "t \<in> set rows" "s \<in> set staging"
  show "\<not> changed s t"
  proof
    assume c: "changed s t"
    then have "cust_id s = cust_id t" by (auto simp: changed_iff)
    with assms \<open>t \<in> set rows\<close> \<open>s \<in> set staging\<close> have "s = t"
      by (meson same_key_same_row subsetD)
    with c show False by simp
  qed
qed

lemma settled_insert_new:
  assumes "distinct (map cust_id staging)" "settled staging target"
  shows "settled staging (insert_new staging target)"
  using assms by (simp add: insert_new_settled settled_append settled_staging_rows)

lemma insert_new_idem:
  assumes snap: "staging_snapshot staging" and st: "settled staging target"
  shows "insert_new staging (insert_new staging target) = insert_new staging target"
proof -
  let ?new = "filter (\<lambda>s. filter (join_on s) target = []) staging"
  have d: "distinct (map cust_id staging)" using snap by (simp add: staging_snapshot_def)
  have "filter (join_on s) (target @ ?new) \<noteq> []" if "s \<in> set staging" for s
  proof (cases "filter (join_on s) target = []")
    case True
    from that snap have "join_on s s" by (auto simp: staging_snapshot_def join_on_iff)
    with that True show ?thesis by (auto simp: filter_empty_conv)
  next
    case False
    then show ?thesis by simp
  qed
  then have "filter (\<lambda>s. filter (join_on s) (target @ ?new) = []) staging = []"
    by (simp add: filter_empty_conv)
  moreover have "settled staging (target @ ?new)"
    using settled_insert_new [OF d st] by (simp add: insert_new_settled st)
  ultimately show ?thesis
    by (simp add: insert_new_settled st)
qed

lemma apply_versions_idem:
  assumes "staging_snapshot staging"
  shows "apply_versions staging (apply_versions staging target) = apply_versions staging target"
proof -
  have m: "\<forall>s \<in> set staging. modified_date s \<noteq> None"
    and d: "distinct (map cust_id staging)"
    using assms by (simp_all add: staging_snapshot_def)
  have st: "settled staging (close_out staging target)"
    by (rule settled_close_out [OF m])
  have "settled staging (apply_versions staging target)"
    unfolding apply_versions_def by (rule settled_insert_new [OF d st])
  then have "close_out staging (apply_versions staging target) = apply_versions staging target"
    by (rule close_out_settled)
  then show ?thesis
    using insert_new_idem [OF assms st] by (simp add: apply_versions_def)
qed


subsection \<open>One current version per key\<close>

lemma distinct_map_iff_count:
  "distinct (map f xs) \<longleftrightarrow> (\<forall>v. length (filter (\<lambda>x. f x = v) xs) \<le> 1)"
proof (induction xs)
  case Nil
  then show ?case by simp
next
  case (Cons x xs)
  show ?case
  proof
    assume d: "distinct (map f (x # xs))"
    then have "f x \<notin> f ` set xs" by simp
    then have "filter (\<lambda>y. f y = f x) xs = []"
      unfolding filter_empty_conv by (metis image_eqI)
    with d Cons show "\<forall>v. length (filter (\<lambda>x. f x = v) (x # xs)) \<le> 1" by auto
  next
    assume c: "\<forall>v. length (filter (\<lambda>y. f y = v) (x # xs)) \<le> 1"
    then have "length (filter (\<lambda>y. f y = f x) (x # xs)) \<le> 1" by blast
    then have "filter (\<lambda>y. f y = f x) xs = []" by simp
    then have "f x \<notin> f ` set xs" by (auto simp: filter_empty_conv)
    moreover have "\<forall>v. length (filter (\<lambda>y. f y = v) xs) \<le> 1"
    proof
      fix v
      from c have "length (filter (\<lambda>y. f y = v) (x # xs)) \<le> 1" by blast
      then show "length (filter (\<lambda>y. f y = v) xs) \<le> 1" by (simp split: if_splits)
    qed
    ultimately show "distinct (map f (x # xs))" using Cons by simp
  qed
qed

lemma single_current_iff:
  "single_current target \<longleftrightarrow>
     (\<forall>k. length (filter (\<lambda>t. cust_id t = Some k \<and> end_date t = None) target) \<le> 1)"
proof -
  have "filter (\<lambda>t. cust_id t = v) (filter (\<lambda>t. end_date t = None \<and> cust_id t \<noteq> None) target) =
        (case v of None \<Rightarrow> [] | Some k \<Rightarrow> filter (\<lambda>t. cust_id t = Some k \<and> end_date t = None) target)" for v
    by (cases v) (auto intro: filter_cong simp: filter_empty_conv)
  then show ?thesis
    unfolding single_current_def current_keys_def distinct_map_iff_count
    by (auto split: option.splits)
qed

lemma current_keys_append [simp]:
  "current_keys (xs @ ys) = current_keys xs @ current_keys ys"
  by (simp add: current_keys_def)

lemma current_keys_close_out:
  assumes "distinct (current_keys target)"
  shows "distinct (current_keys (close_out staging target))"
proof -
  let ?P = "\<lambda>t. end_date t = None \<and> cust_id t \<noteq> None"
  have "current_keys (close_out staging target) =
        map cust_id (filter (?P \<circ> close_row staging) target)"
    by (simp add: current_keys_def close_out_def filter_map comp_def)
  also have "filter (?P \<circ> close_row staging) target =
             filter (?P \<circ> close_row staging) (filter ?P target)"
    by (auto intro!: filter_cong simp: close_row_def split: if_splits)
  finally have eq: "current_keys (close_out staging target) =
      map cust_id (filter (?P \<circ> close_row staging) (filter ?P target))" .
  from assms have "distinct (map cust_id (filter ?P target))"
    by (simp add: current_keys_def)
  then have "distinct (map cust_id (filter (?P \<circ> close_row staging) (filter ?P target)))"
    by (rule distinct_map_filter)
  then show ?thesis by (simp only: eq)
qed

lemma single_current_insert_new:
  assumes d: "distinct (map cust_id staging)" and st: "settled staging target"
    and sc: "single_current target"
  shows "single_current (insert_new staging target)"
proof -
  let ?new = "filter (\<lambda>s. filter (join_on s) target = []) staging"
  have "distinct (current_keys ?new)"
    using d by (simp add: current_keys_def distinct_map_filter)
  moreover have "set (current_keys target) \<inter> set (current_keys ?new) = {}"
  proof (rule ccontr)
    assume "set (current_keys target) \<inter> set (current_keys ?new) \<noteq> {}"
    then obtain t s where t: "t \<in> set target" "end_date t = None" "cust_id t \<noteq> None"
      and s: "s \<in> set staging" "filter (join_on s) target = []" and "cust_id t = cust_id s"
      by (auto simp: current_keys_def)
    then have "join_on s t" by (auto simp: join_on_iff)
    with t s show False by (auto simp: filter_empty_conv)
  qed
  ultimately show ?thesis
    using sc by (simp add: single_current_def insert_new_settled [OF st])
qed

lemma settled_Nil [simp]: "settled staging []"
  by (simp add: settled_def)

lemma single_current_Nil [simp]: "single_current []"
  by (simp add: single_current_def current_keys_def)

lemma single_current_apply:
  assumes "distinct (map cust_id staging)" and "\<forall>s \<in> set staging. modified_date s \<noteq> None"
  shows "single_current (insert_new staging []) \<and>
         (single_current target \<longrightarrow> single_current (apply_versions staging target))"
  using assms
  by (auto simp: apply_versions_def single_current_def [of "close_out staging target"]
      intro!: single_current_insert_new settled_close_out current_keys_close_out
      simp: single_current_def [of target])

subsection \<open>Versions in start order\<close>

lemma contiguity_iff: "contiguity target \<longleftrightarrow> (\<forall>k. contiguous (history k target))"
proof
  assume c: "contiguity target"
  show "\<forall>k. contiguous (history k target)"
  proof
    fix k
    show "contiguous (history k target)"
    proof (cases "versions k target")
      case Nil
      then show ?thesis by (simp add: history_def)
    next
      case (Cons t ts)
      then have "t \<in> set (versions k target)" by simp
      then have "t \<in> set target" "cust_id t = Some k" by (simp_all add: versions_def)
      with c show ?thesis by (auto simp: contiguity_def)
    qed
  qed
next
  assume "\<forall>k. contiguous (history k target)"
  then show "contiguity target" by (auto simp: contiguity_def split: option.splits)
qed

lemma close_row_Nil [simp]: "close_row [] t = t"
  by (simp add: close_row_def)

lemma close_row_single:
  "close_row [s] t = (if end_date t = None \<and> changed s t then t\<lparr>end_date := modified_date s\<rparr> else t)"
  by (simp add: close_row_def)

lemma follows_close_row: "follows a b \<Longrightarrow> follows a (close_row staging b)"
  by (metis follows_def close_row_start_date)

lemma map_close_row_Nil [simp]: "map (close_row []) vs = vs"
  by (induction vs) simp_all

lemma contiguous_Cons:
  "xs \<noteq> [] \<Longrightarrow> contiguous (a # xs) \<longleftrightarrow> follows a (hd xs) \<and> contiguous xs"
  by (cases xs) simp_all

lemma contiguous_last: "contiguous (us @ [c]) \<Longrightarrow> end_date c = None"
proof (induction us)
  case Nil
  then show ?case by simp
next
  case (Cons a us)
  then have c: "contiguous (a # (us @ [c]))" by simp
  have ne: "us @ [c] \<noteq> []" by simp
  from c contiguous_Cons [OF ne, of a] have "contiguous (us @ [c])" by blast
  then show ?case by (rule Cons.IH)
qed

lemma step_contiguous:
  assumes "cust_id s \<noteq> None" "modified_date s \<noteq> None" "start_date s = modified_date s"
    "end_date s = None"
  shows "contiguous vs \<Longrightarrow> \<forall>t \<in> set vs. cust_id t = cust_id s \<Longrightarrow>
     contiguous (map (close_row [s]) vs @
        filter (\<lambda>r. filter (join_on r) (map (close_row [s]) vs) = []) [s])"
proof (induction vs rule: contiguous.induct)
  case 1
  from assms(4) show ?case by simp
next
  case (2 v)
  then have cur: "end_date v = None" and key: "cust_id v = cust_id s" by simp_all
  show ?case
  proof (cases "changed s v")
    case True
    with cur have c: "close_row [s] v = v\<lparr>end_date := modified_date s\<rparr>"
      by (simp add: close_row_single)
    have "\<not> join_on s (v\<lparr>end_date := modified_date s\<rparr>)"
      using assms(2) by (simp add: join_on_iff)
    moreover have "follows (v\<lparr>end_date := modified_date s\<rparr>) s"
      using assms(2,3) by (simp add: follows_def)
    ultimately show ?thesis using assms(4) by (simp add: c)
  next
    case False
    then have c: "close_row [s] v = v" by (simp add: close_row_single)
    have "join_on s v" using cur key assms(1) by (auto simp: join_on_iff)
    then show ?thesis using cur by (simp add: c)
  qed
next
  case (3 a b vs)
  from "3.prems"(1) have fab: "follows a b" and cb: "contiguous (b # vs)" by simp_all
  from fab have a: "end_date a \<noteq> None" unfolding follows_def by blast
  from a have ca: "close_row [s] a = a" by (rule close_row_closed)
  from a have nj: "\<not> join_on s a" by (simp add: join_on_iff)
  have ih: "contiguous (map (close_row [s]) (b # vs) @
        filter (\<lambda>r. filter (join_on r) (map (close_row [s]) (b # vs)) = []) [s])"
  proof (rule "3.IH" [OF cb])
    from "3.prems"(2) show "\<forall>t \<in> set (b # vs). cust_id t = cust_id s" by simp
  qed
  from fab have f: "follows a (close_row [s] b)" by (rule follows_close_row)
  have e: "map (close_row [s]) (a # b # vs) @
        filter (\<lambda>r. filter (join_on r) (map (close_row [s]) (a # b # vs)) = []) [s] =
     a # close_row [s] b # (map (close_row [s]) vs @
        filter (\<lambda>r. filter (join_on r) (map (close_row [s]) (b # vs)) = []) [s])"
    by (simp add: ca nj)
  from ih f show ?case unfolding e by simp
qed

lemma count_le_1_cases:
  "distinct (map f xs) \<Longrightarrow> filter (\<lambda>x. f x = v) xs = [] \<or> (\<exists>x. filter (\<lambda>x. f x = v) xs = [x])"
proof -
  assume "distinct (map f xs)"
  then have "length (filter (\<lambda>x. f x = v) xs) \<le> 1" by (simp add: distinct_map_iff_count)
  then show ?thesis by (cases "filter (\<lambda>x. f x = v) xs") auto
qed

lemma close_row_versions:
  "cust_id t = Some k \<Longrightarrow> close_row staging t = close_row (versions k staging) t"
proof -
  assume k: "cust_id t = Some k"
  have "filter (\<lambda>s. changed s t) (versions k staging) = filter (\<lambda>s. changed s t) staging"
    unfolding versions_def filter_filter using k
    by (intro filter_cong) (auto simp: changed_iff)
  then show ?thesis by (simp add: close_row_def)
qed

lemma join_on_versions:
  "cust_id s = Some k \<Longrightarrow> filter (join_on s) (versions k target) = filter (join_on s) target"
  unfolding versions_def filter_filter
  by (intro filter_cong) (auto simp: join_on_iff)

lemma versions_close_out:
  "versions k (close_out staging target) = map (close_row (versions k staging)) (versions k target)"
proof -
  have "versions k (close_out staging target) = map (close_row staging) (versions k target)"
    by (simp add: versions_def close_out_def filter_map comp_def)
  also have "\<dots> = map (close_row (versions k staging)) (versions k target)"
    by (intro map_cong) (auto simp: versions_def intro: close_row_versions [unfolded versions_def])
  finally show ?thesis .
qed

lemma versions_append [simp]: "versions k (xs @ ys) = versions k xs @ versions k ys"
  by (simp add: versions_def)

lemma versions_apply:
  assumes "\<forall>s \<in> set staging. modified_date s \<noteq> None"
  shows "versions k (apply_versions staging target) =
     map (close_row (versions k staging)) (versions k target) @
     filter (\<lambda>s. filter (join_on s) (map (close_row (versions k staging)) (versions k target)) = [])
       (versions k staging)"
proof -
  let ?T = "close_out staging target"
  have "versions k (filter (\<lambda>s. filter (join_on s) ?T = []) staging) =
        filter (\<lambda>s. filter (join_on s) (versions k ?T) = []) (versions k staging)"
    unfolding versions_def [of k staging] versions_def [of k "filter _ staging"] filter_filter
    by (intro filter_cong) (auto simp: join_on_versions)
  moreover have "apply_versions staging target =
      ?T @ filter (\<lambda>s. filter (join_on s) ?T = []) staging"
    unfolding apply_versions_def
    by (rule insert_new_settled [OF settled_close_out [OF assms]])
  ultimately show ?thesis
    by (simp only: versions_append versions_close_out)
qed

lemma insort_key_map:
  assumes "\<And>x. f (g x) = f x"
  shows "insort_key f (g x) (map g ys) = map g (insort_key f x ys)"
  by (induction ys) (simp_all add: assms)

lemma sort_key_map:
  assumes "\<And>x. f (g x) = f x"
  shows "sort_key f (map g xs) = map g (sort_key f xs)"
  by (induction xs) (simp_all add: insort_key_map [of f g, OF assms])

lemma insort_key_snoc:
  "f a \<le> f x \<Longrightarrow> insort_key f a (zs @ [x]) = insort_key f a zs @ [x]"
  by (induction zs) simp_all

lemma sort_key_snoc:
  "\<forall>y \<in> set xs. f y \<le> f x \<Longrightarrow> sort_key f (xs @ [x]) = sort_key f xs @ [x]"
  by (induction xs) (simp_all add: insort_key_snoc)

lemma sorted_snoc_le:
  "sorted (map f (us @ [c])) \<Longrightarrow> y \<in> set (us @ [c]) \<Longrightarrow> f y \<le> f c"
  by (auto simp: sorted_append)

lemma history_le_current:
  assumes c: "contiguous (history k target)"
    and mono: "\<forall>t \<in> set target. cust_id t = Some k \<and> end_date t = None \<longrightarrow> start_date t \<le> b"
  shows "\<forall>y \<in> set (versions k target). start_date y \<le> b"
proof (cases "history k target" rule: rev_cases)
  case Nil
  then have "set (versions k target) = {}"
    unfolding history_def by (metis set_sort set_empty2)
  then show ?thesis by simp
next
  case (snoc us c)
  with c have "end_date c = None" by (simp add: contiguous_last)
  moreover have "c \<in> set (history k target)" by (simp add: snoc)
  then have cin: "c \<in> set target" "cust_id c = Some k" by (simp_all add: history_def versions_def)
  ultimately have le: "start_date c \<le> b" using mono by blast
  have srt: "sorted (map start_date (us @ [c]))"
    using sorted_sort_key [of start_date "versions k target"] by (simp add: history_def flip: snoc)
  show ?thesis
  proof
    fix y assume "y \<in> set (versions k target)"
    then have "y \<in> set (us @ [c])" by (simp add: history_def flip: snoc)
    from sorted_snoc_le [OF srt this] le show "start_date y \<le> b" by (rule order_trans)
  qed
qed

lemma history_apply:
  assumes d: "distinct (map cust_id staging)"
    and m: "\<forall>s \<in> set staging. modified_date s \<noteq> None"
    and mono: "\<forall>s \<in> set staging. \<forall>t \<in> set target.
        cust_id t = cust_id s \<and> end_date t = None \<longrightarrow> start_date t \<le> start_date s"
    and inv: "contiguous (history k target)"
  shows "history k (apply_versions staging target) =
     map (close_row (versions k staging)) (history k target) @
     filter (\<lambda>s. filter (join_on s) (map (close_row (versions k staging)) (history k target)) = [])
       (versions k staging)"
proof -
  let ?g = "close_row (versions k staging)"
  let ?vs = "versions k target"
  let ?h = "history k target"
  let ?N = "\<lambda>xs. filter (\<lambda>s. filter (join_on s) (map ?g xs) = []) (versions k staging)"
  have "set (map ?g ?h) = set (map ?g ?vs)" by (simp add: history_def)
  then have N: "?N ?h = ?N ?vs" by (simp add: filter_empty_conv)
  have srt: "sort_key start_date (map ?g ?vs) = map ?g ?h"
    by (simp add: sort_key_map history_def)
  have "length (versions k staging) \<le> 1"
    using d by (simp add: distinct_map_iff_count versions_def)
  then have len: "length (?N ?vs) \<le> 1"
    by (meson length_filter_le order_trans)
  have "sort_key start_date (map ?g ?vs @ ?N ?vs) = map ?g ?h @ ?N ?vs"
  proof (cases "?N ?vs")
    case Nil
    then show ?thesis by (simp only: append_Nil2 srt)
  next
    case (Cons n ns)
    with len have ns: "ns = []" by simp
    have "n \<in> set (?N ?vs)" by (simp only: Cons list.set_intros)
    then have s: "n \<in> set staging" "cust_id n = Some k" by (simp_all add: versions_def)
    with mono have "\<forall>t \<in> set target. cust_id t = Some k \<and> end_date t = None \<longrightarrow>
        start_date t \<le> start_date n" by simp
    from history_le_current [OF inv this]
    have "\<forall>y \<in> set (map ?g ?vs). start_date y \<le> start_date n" by simp
    from sort_key_snoc [OF this] show ?thesis by (simp only: Cons ns srt)
  qed
  then show ?thesis
    by (simp only: history_def [of k "apply_versions staging target"] versions_apply [OF m] N)
qed

lemma contiguous_apply:
  assumes snap: "staging_snapshot staging"
    and sm: "\<forall>s \<in> set staging. start_date s = modified_date s"
    and mono: "\<forall>s \<in> set staging. \<forall>t \<in> set target.
        cust_id t = cust_id s \<and> end_date t = None \<longrightarrow> start_date t \<le> start_date s"
    and inv: "contiguous (history k target)"
  shows "contiguous (history k (apply_versions staging target))"
proof -
  from snap have m: "\<forall>s \<in> set staging. modified_date s \<noteq> None"
    and d: "distinct (map cust_id staging)" by (simp_all add: staging_snapshot_def)
  note h = history_apply [OF d m mono inv]
  from count_le_1_cases [OF d, of "Some k"]
  consider "versions k staging = []" | s where "versions k staging = [s]"
    by (auto simp: versions_def)
  then show ?thesis
  proof cases
    case 1
    with inv show ?thesis by (simp add: h)
  next
    case 2
    then have "s \<in> set (versions k staging)" by simp
    then have s: "s \<in> set staging" "cust_id s = Some k" by (simp_all add: versions_def)
    with snap sm have p: "cust_id s \<noteq> None" "modified_date s \<noteq> None"
      "start_date s = modified_date s" "end_date s = None"
      by (simp_all add: staging_snapshot_def)
    have k: "\<forall>t \<in> set (history k target). cust_id t = cust_id s"
      using s by (simp add: history_def versions_def)
    show ?thesis
      unfolding h 2 by (rule step_contiguous [OF p inv k])
  qed
qed

lemma contiguity_apply:
  assumes "staging_snapshot staging"
    and "\<forall>s \<in> set staging. start_date s = modified_date s"
    and "\<forall>s \<in> set staging. \<forall>t \<in> set target.
        cust_id t = cust_id s \<and> end_date t = None \<longrightarrow> start_date t \<le> start_date s"
    and "contiguity target"
  shows "contiguity (apply_versions staging target)"
  using assms contiguous_apply unfolding contiguity_iff by blast

lemma staging_snapshot_load:
  assumes "distinct (map src_cust_id src)" "\<forall>r \<in> set src. src_modified_date r \<noteq> None"
  shows "staging_snapshot (map staging_of src)"
proof -
  have eq: "map cust_id (map staging_of src) = map Some (map src_cust_id src)"
    by (simp add: staging_of_def)
  from assms(1) have "distinct (map Some (map src_cust_id src))"
    by (simp only: distinct_map [of Some]) simp
  then have "distinct (map cust_id (map staging_of src))"
    by (simp only: eq)
  with assms(2) show ?thesis
    by (auto simp: staging_snapshot_def staging_of_def)
qed

section \<open>Properties of the steps of staging.py\<close>

lemmas py_defs = seq_def try_except_def execute_def commit_def rollback_def
  logging_info_def logging_error_def handler_def select_all_def

lemmas step_defs = insert_data_to_staging_def insert_data_to_control_def
  update_control_table_stg_def insert_into_stg_def push_to_target_table_def
  update_control_table_tgt_def

lemma update_control_table_stg_committed:
  "committed (snd (update_control_table_stg raises c)) =
     (if raises 0 \<noteq> None then committed c
      else if raises 1 \<noteq> None \<or> raises 2 \<noteq> None \<or> raises 3 \<noteq> None
           then update_control_from_stg (pending c)
      else update_src (update_control_from_stg (pending c)))"
  by (simp add: update_control_table_stg_def py_defs split: option.splits)

lemma update_control_table_tgt_committed:
  "committed (snd (update_control_table_tgt raises c)) =
     (if raises 0 \<noteq> None then committed c else update_control_from_tgt (pending c))"
  by (simp add: update_control_table_tgt_def py_defs split: option.splits)

subsection \<open>MAX and the upsert\<close>

lemma sql_max_snoc:
  "sql_max (xs @ [x]) = (case x of None \<Rightarrow> sql_max xs
     | Some v \<Rightarrow> (case sql_max xs of None \<Rightarrow> Some v | Some m \<Rightarrow> Some (max m v)))"
  by (simp add: sql_max_def split: option.splits)

lemma sql_max_None_iff: "sql_max xs = None \<longleftrightarrow> (\<forall>x \<in> set xs. x = None)"
  by (induction xs rule: rev_induct) (auto simp: sql_max_snoc sql_max_def split: option.splits)

lemma sql_max_Some:
  "sql_max xs = Some m \<Longrightarrow> Some m \<in> set xs \<and> (\<forall>v. Some v \<in> set xs \<longrightarrow> v \<le> m)"
proof (induction xs arbitrary: m rule: rev_induct)
  case Nil
  then show ?case by (simp add: sql_max_def)
next
  case (snoc x xs)
  show ?case
  proof (cases x)
    case None
    with snoc show ?thesis by (auto simp: sql_max_snoc)
  next
    case (Some v)
    show ?thesis
    proof (cases "sql_max xs")
      case None
      then have "\<forall>x \<in> set xs. x = None" by (simp add: sql_max_None_iff)
      with snoc.prems Some None show ?thesis by (auto simp: sql_max_snoc)
    next
      case (Some n)
      from snoc.IH [OF Some] have n: "Some n \<in> set xs" "\<forall>v. Some v \<in> set xs \<longrightarrow> v \<le> n"
        by simp_all
      from snoc.prems \<open>x = Some v\<close> Some have m: "m = max n v" by (simp add: sql_max_snoc)
      show ?thesis
      proof (intro conjI allI impI)
        show "Some m \<in> set (xs @ [x])"
          using n(1) \<open>x = Some v\<close> m by (cases "n \<le> v") (simp_all add: max_def)
        fix w assume "Some w \<in> set (xs @ [x])"
        then have "w = v \<or> Some w \<in> set xs" using \<open>x = Some v\<close> by auto
        with n(2) m show "w \<le> m" by (auto simp: max_def)
      qed
    qed
  qed
qed

lemma last_staged_snoc:
  "last_staged k (S @ [s]) = (if col1_id s = k then Some s else last_staged k S)"
  by (simp add: last_staged_def)

lemma last_staged_Nil [simp]: "last_staged k [] = None"
  by (simp add: last_staged_def)

lemma last_staged_Some:
  "last_staged k S = Some s \<Longrightarrow> s \<in> set S \<and> col1_id s = k"
  by (induction S rule: rev_induct) (auto simp: last_staged_snoc split: if_splits)

lemma last_staged_None: "last_staged k S = None \<longleftrightarrow> k \<notin> col1_id ` set S"
  by (induction S rule: rev_induct) (auto simp: last_staged_snoc)

lemma upsert_row_map_keys:
  "map col1_id (upsert_row dflt s T) =
     (if col1_id s \<in> col1_id ` set T then map col1_id T else map col1_id T @ [col1_id s])"
  by (auto simp: upsert_row_def staged_def intro!: map_cong)

lemma upsert_row_keys:
  "col1_id ` set (upsert_row dflt s T) = insert (col1_id s) (col1_id ` set T)"
  unfolding set_map [symmetric] upsert_row_map_keys by auto

lemma upsert_row_distinct:
  "distinct (map col1_id T) \<Longrightarrow> distinct (map col1_id (upsert_row dflt s T))"
  by (simp add: upsert_row_map_keys)

lemma fold_upsert_keys:
  "col1_id ` set (fold (upsert_row dflt) S T) = col1_id ` set T \<union> col1_id ` set S"
  by (induction S rule: rev_induct) (auto simp: upsert_row_keys)

lemma fold_upsert_distinct:
  "distinct (map col1_id T) \<Longrightarrow> distinct (map col1_id (fold (upsert_row dflt) S T))"
  by (induction S rule: rev_induct) (simp_all add: upsert_row_distinct)

lemma upsert_row_member:
  assumes "t \<in> set (upsert_row dflt s T)"
  shows "(col1_id t = col1_id s \<and> col2_desc t = col2_desc s \<and> col3_desc t = col3_desc s) \<or>
         (col1_id t \<noteq> col1_id s \<and> t \<in> set T)"
proof (cases "col1_id s \<in> col1_id ` set T")
  case True
  with assms obtain x where x: "x \<in> set T"
    and t: "t = (if col1_id x = col1_id s
                 then x\<lparr>col2_desc := col2_desc s, col3_desc := col3_desc s\<rparr> else x)"
    by (auto simp: upsert_row_def)
  then show ?thesis by (cases "col1_id x = col1_id s") simp_all
next
  case False
  with assms have "t \<in> set T \<or> t = staged dflt s" by (auto simp: upsert_row_def)
  then show ?thesis
  proof
    assume "t \<in> set T"
    with False have "col1_id t \<noteq> col1_id s" by (metis image_eqI)
    with \<open>t \<in> set T\<close> show ?thesis by simp
  next
    assume "t = staged dflt s"
    then show ?thesis by (simp add: staged_def)
  qed
qed

lemma fold_upsert_member:
  "t \<in> set (fold (upsert_row dflt) S T) \<Longrightarrow>
   (case last_staged (col1_id t) S of
      None \<Rightarrow> t \<in> set T
    | Some s \<Rightarrow> col2_desc t = col2_desc s \<and> col3_desc t = col3_desc s)"
proof (induction S arbitrary: t rule: rev_induct)
  case Nil
  then show ?case by simp
next
  case (snoc s S)
  from snoc.prems have "t \<in> set (upsert_row dflt s (fold (upsert_row dflt) S T))" by simp
  from upsert_row_member [OF this] show ?case
  proof
    assume "col1_id t = col1_id s \<and> col2_desc t = col2_desc s \<and> col3_desc t = col3_desc s"
    then show ?thesis by (simp add: last_staged_snoc)
  next
    assume a: "col1_id t \<noteq> col1_id s \<and> t \<in> set (fold (upsert_row dflt) S T)"
    then have "last_staged (col1_id t) (S @ [s]) = last_staged (col1_id t) S"
      by (simp add: last_staged_snoc)
    with snoc.IH a show ?thesis by simp
  qed
qed

lemma over_snoc:
  "over (S @ [s]) t = (if col1_id t = col1_id s
     then t\<lparr>col2_desc := col2_desc s, col3_desc := col3_desc s\<rparr> else over S t)"
  by (simp add: over_def last_staged_snoc)

lemma over_col1_id [simp]: "col1_id (over S t) = col1_id t"
  by (simp add: over_def split: option.splits)

lemma over_overwritten:
  "(over S t)\<lparr>col2_desc := a, col3_desc := b\<rparr> = t\<lparr>col2_desc := a, col3_desc := b\<rparr>"
  by (simp add: over_def split: option.splits)

lemma fold_upsert_existing:
  "col1_id ` set S \<subseteq> col1_id ` set X \<Longrightarrow> fold (upsert_row dflt) S X = map (over S) X"
proof (induction S rule: rev_induct)
  case Nil
  show ?case by (simp add: over_def map_idI)
next
  case (snoc s S)
  then have ih: "fold (upsert_row dflt) S X = map (over S) X" by simp
  from snoc.prems have "col1_id s \<in> col1_id ` set (map (over S) X)"
    by (auto simp: image_iff)
  then have "upsert_row dflt s (map (over S) X) =
      map (\<lambda>t. if col1_id t = col1_id s
                then t\<lparr>col2_desc := col2_desc s, col3_desc := col3_desc s\<rparr> else t) (map (over S) X)"
    by (simp only: upsert_row_def if_True)
  also have "\<dots> = map (over (S @ [s])) X"
    by (simp add: over_snoc over_overwritten)
  finally show ?case by (simp add: ih)
qed

lemma fold_upsert_idem:
  "fold (upsert_row dflt) S (fold (upsert_row dflt) S T) = fold (upsert_row dflt) S T"
proof -
  let ?X = "fold (upsert_row dflt) S T"
  have "col1_id ` set S \<subseteq> col1_id ` set ?X" by (simp add: fold_upsert_keys)
  then have "fold (upsert_row dflt) S ?X = map (over S) ?X" by (rule fold_upsert_existing)
  also have "\<dots> = ?X"
  proof (rule map_idI)
    fix t assume "t \<in> set ?X"
    from fold_upsert_member [OF this] show "over S t = t"
      by (simp add: over_def split: option.splits)
  qed
  finally show ?thesis .
qed

subsection \<open>What each step commits\<close>

lemma committed_insert_data_to_staging:
  "committed (snd (insert_data_to_staging raises dflt c)) =
     (if raises 0 \<noteq> None then committed c else insert_stg_from_src dflt (pending c))"
  by (simp add: insert_data_to_staging_def py_defs split: option.splits)

lemma committed_insert_data_to_control:
  "committed (snd (insert_data_to_control raises now c)) =
     (if raises 0 \<noteq> None then committed c else insert_control now (pending c))"
  by (simp add: insert_data_to_control_def py_defs split: option.splits)

lemma committed_insert_into_stg:
  "committed (snd (insert_into_stg raises dflt c)) =
     (if raises 0 \<noteq> None then committed c else insert_stg_delta dflt (pending c))"
  by (simp add: insert_into_stg_def py_defs split: option.splits)

lemma committed_push_to_target_table:
  "committed (snd (push_to_target_table raises dflt c)) =
     (if raises 0 \<noteq> None then committed c else upsert_tgt_from_stg dflt (pending c))"
  by (simp add: push_to_target_table_def py_defs split: option.splits)

lemma clean_after_insert_data_to_staging:
  "clean c \<Longrightarrow> clean (snd (insert_data_to_staging raises dflt c))"
  by (simp add: clean_def insert_data_to_staging_def py_defs split: option.splits)

lemma clean_after_insert_data_to_control:
  "clean c \<Longrightarrow> clean (snd (insert_data_to_control raises now c))"
  by (simp add: clean_def insert_data_to_control_def py_defs split: option.splits)

lemma clean_after_update_control_table_stg:
  "clean c \<Longrightarrow> raises 4 = None \<Longrightarrow> clean (snd (update_control_table_stg raises c))"
  by (simp add: clean_def update_control_table_stg_def py_defs split: option.splits)

lemma clean_after_insert_into_stg:
  "clean c \<Longrightarrow> clean (snd (insert_into_stg raises dflt c))"
  by (simp add: clean_def insert_into_stg_def py_defs split: option.splits)

lemma clean_after_push_to_target_table:
  "clean c \<Longrightarrow> clean (snd (push_to_target_table raises dflt c))"
  by (simp add: clean_def push_to_target_table_def py_defs split: option.splits)

lemma clean_session0: "clean session0"
  by (simp add: clean_def session0_def)

lemma clean_session1: "clean session1"
  unfolding session1_def by (rule clean_after_insert_data_to_staging [OF clean_session0])

lemma clean_session2: "clean session2"
  unfolding session2_def by (rule clean_after_insert_data_to_control [OF clean_session1])

lemma clean_session3: "clean session3"
  unfolding session3_def
  by (rule clean_after_update_control_table_stg [OF clean_session2]) (simp add: never_def)

lemma clean_session4: "clean session4"
  unfolding session4_def by (rule clean_after_insert_into_stg [OF clean_session3])

subsection \<open>What each step does with an error\<close>

lemmas catches_defs = catches_def outcome_def error_entry_def errors_logged_def clean_def

lemma catches_insert_data_to_staging:
  "catches ''Error inserting data into staging: '' [0, 1] 2 raises c
     (insert_data_to_staging raises dflt c)"
  by (simp add: catches_defs insert_data_to_staging_def py_defs split: option.splits)

lemma catches_insert_data_to_control:
  "catches ''Error inserting data into control table: '' [0, 1] 2 raises c
     (insert_data_to_control raises now c)"
  by (simp add: catches_defs insert_data_to_control_def py_defs split: option.splits)

lemma catches_update_control_table_stg:
  "catches ''Error updating control table after staging: '' [0, 1, 2, 3] 4 raises c
     (update_control_table_stg raises c)"
  by (simp add: catches_defs update_control_table_stg_def py_defs split: option.splits)

lemma catches_insert_into_stg:
  "catches ''Error inserting new data into staging: '' [0, 1] 2 raises c
     (insert_into_stg raises dflt c)"
  by (simp add: catches_defs insert_into_stg_def py_defs split: option.splits)

lemma catches_push_to_target_table:
  "catches ''Error pushing data to target table: '' [0, 1] 2 raises c
     (push_to_target_table raises dflt c)"
  by (simp add: catches_defs push_to_target_table_def py_defs split: option.splits)

lemma catches_update_control_table_tgt:
  "catches ''Error updating control table after target load: '' [0] 1 raises c
     (update_control_table_tgt raises c)"
  by (simp add: catches_defs update_control_table_tgt_def py_defs split: option.splits)

lemma catches_returns:
  "catches msg positions n raises c r \<Longrightarrow> raises n = None \<Longrightarrow> fst r = Inr ()"
  by (simp add: catches_def outcome_def split: option.splits)

lemma seq_returns:
  "fst (p c) = Inr () \<Longrightarrow> seq p q c = q (snd (p c))"
  by (cases "p c") (simp add: seq_def)

lemma returns_eq: "fst r = Inr () \<Longrightarrow> r = (Inr (), snd r)"
  by (cases r) simp

lemma main_runs_every_step:
  assumes "rollbacks_succeed raises"
  shows "main raises dflt now c =
     (Inr (), snd (update_control_table_tgt (raises 5)
       (snd (push_to_target_table (raises 4) dflt
         (snd (insert_into_stg (raises 3) dflt
           (snd (update_control_table_stg (raises 2)
             (snd (insert_data_to_control (raises 1) now
               (snd (insert_data_to_staging (raises 0) dflt c))))))))))))"
proof -
  from assms have r: "raises 0 2 = None" "raises 1 2 = None" "raises 2 4 = None"
    "raises 3 2 = None" "raises 4 2 = None" "raises 5 1 = None"
    by (simp_all add: rollbacks_succeed_def)
  have ret: "fst (insert_data_to_staging (raises 0) dflt c1) = Inr ()"
    "fst (insert_data_to_control (raises 1) now c2) = Inr ()"
    "fst (update_control_table_stg (raises 2) c3) = Inr ()"
    "fst (insert_into_stg (raises 3) dflt c4) = Inr ()"
    "fst (push_to_target_table (raises 4) dflt c5) = Inr ()"
    "fst (update_control_table_tgt (raises 5) c6) = Inr ()" for c1 c2 c3 c4 c5 c6
    using catches_insert_data_to_staging [where raises = "raises 0" and dflt = dflt and c = c1]
      catches_insert_data_to_control [where raises = "raises 1" and now = now and c = c2]
      catches_update_control_table_stg [where raises = "raises 2" and c = c3]
      catches_insert_into_stg [where raises = "raises 3" and dflt = dflt and c = c4]
      catches_push_to_target_table [where raises = "raises 4" and dflt = dflt and c = c5]
      catches_update_control_table_tgt [where raises = "raises 5" and c = c6] r
    by (simp_all add: catches_def outcome_def split: option.splits)
  have last: "seq p (\<lambda>c. (Inr (), c)) c' = (Inr (), snd (p c'))" if "fst (p c') = Inr ()"
    for p :: "unit py" and c'
    using that by (cases "p c'") (simp add: seq_def)
  show ?thesis
    unfolding main_def block.simps
    by (simp only: seq_returns ret last)
qed

lemma newer_than_qualifies: "newer_than s w \<Longrightarrow> qualifies s w"
  unfolding newer_than_def qualifies_def is_true_def sql_or_def
  by (cases "sql_gt (jun25_created_date s) (max_created_date w) = Some True") simp_all

lemma delta_member:
  assumes "s \<in> set (src_jun25 d)" "w \<in> set (control_table d)"
    "table_name w = ''tgt_jun25''" "newer_than s w"
  shows "s \<in> set (delta d)"
proof -
  let ?ws = "\<lambda>s. filter (\<lambda>c. table_name c = ''tgt_jun25'' \<and> qualifies s c) (control_table d)"
  from assms(4) have "qualifies s w" by (rule newer_than_qualifies)
  with assms(2,3) have "w \<in> set (?ws s)" by simp
  then have "s \<in> set (map (\<lambda>c. s) (?ws s))" by (simp add: image_iff) blast
  moreover have "map (\<lambda>c. s) (?ws s) \<in> set (map (\<lambda>s. map (\<lambda>c. s) (?ws s)) (src_jun25 d))"
    using assms(1) by (simp add: image_iff) blast
  ultimately show ?thesis unfolding delta_def by (simp only: set_concat) blast
qed

section \<open>The claims on the historized target\<close>

text \<open>
  C1 (idempotence of the version-apply step). Running the close-out and the insert a
  second time with the same staging content leaves the target as it was after the first
  run, for every staging table that holds one row per key, each with a key, a modified
  timestamp and a null end marker, which is what the staging load produces from the
  primary-keyed source. The target may be any table.
\<close>

theorem apply_versions_idempotent:
  "staging_snapshot staging \<Longrightarrow>
   apply_versions staging (apply_versions staging target) = apply_versions staging target"
  by (rule apply_versions_idem)

theorem apply_versions_idempotent_witness:
  "staging_snapshot (demo_staging t0) \<and>
   apply_versions (demo_staging t0) (apply_versions (demo_staging t0) (demo_target t0)) =
   apply_versions (demo_staging t0) (demo_target t0)"
proof -
  have h: "staging_snapshot (demo_staging t0)" by code_simp
  from h apply_versions_idempotent [OF h, of "demo_target t0"] show ?thesis by (rule conjI)
qed

text \<open>With two staging rows for one key the second run closes both versions that the
  first run inserted and inserts both again.\<close>

theorem apply_versions_twice_duplicate_key:
  "apply_versions two_rows_one_key (apply_versions two_rows_one_key []) \<noteq>
   apply_versions two_rows_one_key []"
  by code_simp

text \<open>
  C2 (single-current invariant). When staging holds at most one row per key and every
  staging row has a modified timestamp, the initial insert into the empty target leaves
  at most one current row per key, and the close-out followed by the insert keeps it so.
\<close>

theorem single_current_preserved:
  "distinct (map cust_id staging) \<Longrightarrow> has_modified_dates staging \<Longrightarrow>
   single_current (insert_new staging []) \<and>
   (single_current target \<longrightarrow> single_current (apply_versions staging target))"
  unfolding has_modified_dates_def by (rule single_current_apply)

theorem single_current_preserved_witness:
  "distinct (map cust_id (demo_staging t0)) \<and>
   has_modified_dates (demo_staging t0) \<and>
   single_current (demo_target t0) \<and>
   single_current (insert_new (demo_staging t0) []) \<and>
   single_current (apply_versions (demo_staging t0) (demo_target t0))"
proof -
  have d: "distinct (map cust_id (demo_staging t0))" by code_simp
  have m: "has_modified_dates (demo_staging t0)" by code_simp
  have c: "single_current (demo_target t0)" by code_simp
  from single_current_preserved [OF d m, of "demo_target t0"] d m c show ?thesis by blast
qed

text \<open>Two staging rows for one key are both inserted, each with a null end marker.\<close>

theorem two_current_rows_duplicate_key:
  "\<not> single_current (insert_new two_rows_one_key [])"
  by code_simp

text \<open>
  C3 (contiguity invariant). Take the versions of a key in the order of their start
  timestamps: every version but the last is closed and its end marker is the start
  marker of the next one, and the last one is current. A cycle of staging reload,
  close-out and insert keeps this: the close-out writes the staging row's modified
  timestamp, and the reload has set the staging row's start marker to that same
  timestamp. The source is as the data model has it: one row per key, by its primary
  key, and a last-modified timestamp that is present and does not go backwards, so that
  it is not earlier than the start of the current version of the key, which is an
  earlier last-modified timestamp of the same row.
\<close>

theorem contiguity_preserved:
  assumes "distinct (map src_cust_id src)"
    and "src_has_modified_dates src"
    and "not_before_current src target"
    and "contiguity target"
  shows "contiguity (apply_versions (reload_staging src staging) target)"
proof -
  have "staging_snapshot (map staging_of src)"
    using assms(1,2) unfolding src_has_modified_dates_def by (rule staging_snapshot_load)
  moreover have "\<forall>s \<in> set (map staging_of src). start_date s = modified_date s"
    by (simp add: staging_of_def)
  moreover have "\<forall>s \<in> set (map staging_of src). \<forall>t \<in> set target.
        cust_id t = cust_id s \<and> end_date t = None \<longrightarrow> start_date t \<le> start_date s"
    using assms(3) by (simp add: staging_of_def not_before_current_def)
  ultimately have "contiguity (apply_versions (map staging_of src) target)"
    using assms(4) by (rule contiguity_apply)
  then show ?thesis by (simp add: reload_staging_def load_staging_def)
qed

theorem contiguity_preserved_witness:
  "distinct (map src_cust_id (update_phone (demo_src t0))) \<and>
   src_has_modified_dates (update_phone (demo_src t0)) \<and>
   not_before_current (update_phone (demo_src t0)) (demo_target t0) \<and>
   contiguity (demo_target t0) \<and>
   contiguity (apply_versions (reload_staging (update_phone (demo_src t0)) []) (demo_target t0))"
proof -
  have a: "distinct (map src_cust_id (update_phone (demo_src t0)))" by code_simp
  have b: "src_has_modified_dates (update_phone (demo_src t0))" by code_simp
  have c: "not_before_current (update_phone (demo_src t0)) (demo_target t0)" by code_simp
  have d: "contiguity (demo_target t0)" by code_simp
  from contiguity_preserved [OF a b c d, of "[]"] a b c d show ?thesis by blast
qed

text \<open>
  C10 (a current version whose phone number is NULL). A source row with a NULL phone
  number is loaded: the target gets its first version, current, with a NULL phone
  number. The source row then gets the phone number 5. The comparison
  \<open>s.phone_no != target.phone_no\<close> is UNKNOWN, so the close-out leaves the version open
  and the insert adds nothing: the target is unchanged.
\<close>

theorem null_phone_change_not_versioned:
  "insert_new (load_staging [\<lparr>src_cust_id = 1, src_phone_no = None, src_created_date = Some t0,
                              src_modified_date = Some t0\<rparr>] []) [] = [version 1 None t0] \<and>
   apply_versions
     (reload_staging [\<lparr>src_cust_id = 1, src_phone_no = Some 5, src_created_date = Some t0,
                        src_modified_date = Some t1\<rparr>] [])
     [version 1 None t0] = [version 1 None t0]"
  by code_simp

section \<open>The claims on the staging loads, the watermark, the merge and the errors\<close>

text \<open>
  C4 (what a staging load leaves in staging). Neither load clears the staging table.
  After a load whose INSERT succeeds, staging holds the rows it held before, followed by
  a copy of every source row (\<open>insert_data_to_staging\<close>) or by a copy of every
  qualifying source row (\<open>insert_into_stg\<close>).
\<close>

theorem staging_load_appends:
  assumes "clean c" and "raises 0 = None"
  shows "stg_jun25 (committed (snd (insert_data_to_staging raises dflt c))) =
           stg_jun25 (committed c) @ map (staged dflt) (src_jun25 (committed c)) \<and>
         stg_jun25 (committed (snd (insert_into_stg raises dflt c))) =
           stg_jun25 (committed c) @ map (staged dflt) (delta (committed c))"
  using assms
  by (simp add: clean_def committed_insert_data_to_staging committed_insert_into_stg
      insert_stg_from_src_def insert_stg_delta_def)

theorem staging_load_appends_witness:
  "clean session3 \<and> never 0 = None \<and>
   stg_jun25 (committed (snd (insert_data_to_staging never at_t0 session3))) =
     stg_jun25 (committed session3) @ map (staged at_t0) (src_jun25 (committed session3)) \<and>
   stg_jun25 (committed (snd (insert_into_stg never at_t0 session3))) =
     stg_jun25 (committed session3) @ map (staged at_t0) (delta (committed session3))"
proof -
  have a: "clean session3" by (rule clean_session3)
  have b: "never 0 = None" by (simp add: never_def)
  from staging_load_appends [where c = session3 and raises = never and dflt = at_t0, OF a b] a b
  show ?thesis by blast
qed

text \<open>In the example run the incremental load finds one qualifying row, and staging
  then holds the two rows of the first load and that row.\<close>

theorem incremental_load_keeps_earlier_rows:
  "stg_jun25 (committed (snd (insert_into_stg never at_t0 session3))) \<noteq>
   map (staged at_t0) (delta (committed session3))"
  by code_simp

text \<open>
  C5 (delta completeness). A source row whose created timestamp is greater than the
  stored max-created value of entity \<open>tgt_jun25\<close>, or whose modified timestamp is
  greater than the stored max-modified value, is in staging after an incremental load
  whose INSERT succeeds; either comparison alone is enough.
\<close>

theorem incremental_load_complete:
  assumes "clean c" and "raises 0 = None"
    and "s \<in> set (src_jun25 (committed c))"
    and "w \<in> set (control_table (committed c))" and "table_name w = ''tgt_jun25''"
    and "newer_than s w"
  shows "staged dflt s \<in> set (stg_jun25 (committed (snd (insert_into_stg raises dflt c))))"
proof -
  from assms(3-6) have "s \<in> set (delta (committed c))" by (rule delta_member)
  with assms(1,2) show ?thesis
    by (simp add: clean_def committed_insert_into_stg insert_stg_delta_def)
qed

theorem incremental_load_complete_witness:
  "clean session3 \<and> never 0 = None \<and>
   hd (tl (src_jun25 (committed session3))) \<in> set (src_jun25 (committed session3)) \<and>
   hd (control_table (committed session3)) \<in> set (control_table (committed session3)) \<and>
   table_name (hd (control_table (committed session3))) = ''tgt_jun25'' \<and>
   newer_than (hd (tl (src_jun25 (committed session3)))) (hd (control_table (committed session3))) \<and>
   staged at_t0 (hd (tl (src_jun25 (committed session3)))) \<in>
     set (stg_jun25 (committed (snd (insert_into_stg never at_t0 session3))))"
proof -
  let ?s = "hd (tl (src_jun25 (committed session3)))"
  let ?w = "hd (control_table (committed session3))"
  have a: "clean session3" by (rule clean_session3)
  have b: "never 0 = None" by (simp add: never_def)
  have c: "?s \<in> set (src_jun25 (committed session3))" by code_simp
  have d: "?w \<in> set (control_table (committed session3))" by code_simp
  have e: "table_name ?w = ''tgt_jun25''" by code_simp
  have f: "newer_than ?s ?w" by code_simp
  from incremental_load_complete
    [where c = session3 and raises = never and dflt = at_t0 and s = ?s and w = ?w, OF a b c d e f]
    a b c d e f
  show ?thesis by blast
qed

text \<open>
  C6 (what a watermark update stores). A watermark update whose UPDATE succeeds sets
  the stored max-created and max-modified values of entity \<open>tgt_jun25\<close> to the maxima of
  the created and modified timestamps over the staging table
  (\<open>update_control_table_stg\<close>) or over the target table (\<open>update_control_table_tgt\<close>),
  NULL when the table has no timestamp. The values stored before are not read.
\<close>

theorem watermark_update_overwrites:
  assumes "clean c" and "raises 0 = None"
  shows "control_table (committed (snd (update_control_table_stg raises c))) =
           map (set_watermark (stg_jun25 (committed c))) (control_table (committed c)) \<and>
         control_table (committed (snd (update_control_table_tgt raises c))) =
           map (set_watermark (tgt_jun25 (committed c))) (control_table (committed c))"
  using assms
  by (simp add: clean_def update_control_table_stg_committed update_control_table_tgt_committed
      update_control_from_stg_def update_control_from_tgt_def update_src_def)

theorem watermark_update_overwrites_witness:
  "clean session2 \<and> never 0 = None \<and>
   control_table (committed (snd (update_control_table_stg never session2))) =
     map (set_watermark (stg_jun25 (committed session2))) (control_table (committed session2)) \<and>
   control_table (committed (snd (update_control_table_tgt never session2))) =
     map (set_watermark (tgt_jun25 (committed session2))) (control_table (committed session2))"
proof -
  have a: "clean session2" by (rule clean_session2)
  have b: "never 0 = None" by (simp add: never_def)
  from watermark_update_overwrites [where c = session2 and raises = never, OF a b] a b
  show ?thesis by blast
qed

text \<open>In the example run the control row is inserted at \<open>t1\<close>, after the staging rows
  were loaded at \<open>t0\<close>; the update from staging then lowers both stored values to \<open>t0\<close>,
  and nothing is logged at level ERROR.\<close>

theorem watermark_decreases:
  "map max_created_date (control_table (committed session2)) = [Some t1] \<and>
   map max_created_date (control_table (committed session3)) = [Some t0] \<and>
   map max_modified_date (control_table (committed session2)) = [Some t1] \<and>
   map max_modified_date (control_table (committed session3)) = [Some t0] \<and>
   t0 < t1 \<and> filter (\<lambda>e. fst e = ERROR) (log session3) = []"
  by code_simp

text \<open>
  C7 (what a failed write leaves behind). A statement that raises is rolled back to the
  last commit. In the steps with one write (both staging loads, the insert into the
  control table, the merge and the watermark update after the target load) a failure of
  that write leaves the persistent state as it was before the step. In
  \<open>update_control_table_stg\<close> a failure of the watermark update does so too, but the
  watermark update is committed before the source is updated: when the update of the
  source raises, the persistent state is the one with the watermark updated.
\<close>

theorem failed_write_rolls_back_to_last_commit:
  assumes "clean c"
  shows "(raises 0 \<noteq> None \<longrightarrow>
            committed (snd (insert_data_to_staging raises dflt c)) = committed c) \<and>
         (raises 0 \<noteq> None \<longrightarrow>
            committed (snd (insert_data_to_control raises now c)) = committed c) \<and>
         (raises 0 \<noteq> None \<longrightarrow>
            committed (snd (insert_into_stg raises dflt c)) = committed c) \<and>
         (raises 0 \<noteq> None \<longrightarrow>
            committed (snd (push_to_target_table raises dflt c)) = committed c) \<and>
         (raises 0 \<noteq> None \<longrightarrow>
            committed (snd (update_control_table_tgt raises c)) = committed c) \<and>
         (raises 0 \<noteq> None \<longrightarrow>
            committed (snd (update_control_table_stg raises c)) = committed c) \<and>
         (raises 0 = None \<and> raises 2 \<noteq> None \<longrightarrow>
            committed (snd (update_control_table_stg raises c)) =
              update_control_from_stg (committed c))"
  using assms
  by (simp add: clean_def committed_insert_data_to_staging committed_insert_data_to_control
      committed_insert_into_stg committed_push_to_target_table
      update_control_table_tgt_committed update_control_table_stg_committed)

theorem failed_write_rolls_back_to_last_commit_witness:
  "clean session2 \<and> only 0 0 \<noteq> None \<and> only 2 0 = None \<and> only 2 2 \<noteq> None \<and>
   committed (snd (insert_data_to_staging (only 0) at_t0 session2)) = committed session2 \<and>
   committed (snd (insert_data_to_control (only 0) t1 session2)) = committed session2 \<and>
   committed (snd (insert_into_stg (only 0) at_t0 session2)) = committed session2 \<and>
   committed (snd (push_to_target_table (only 0) at_t0 session2)) = committed session2 \<and>
   committed (snd (update_control_table_tgt (only 0) session2)) = committed session2 \<and>
   committed (snd (update_control_table_stg (only 0) session2)) = committed session2 \<and>
   committed (snd (update_control_table_stg (only 2) session2)) =
     update_control_from_stg (committed session2)"
proof -
  have a: "clean session2" by (rule clean_session2)
  have b: "only 0 0 \<noteq> None" "only 2 0 = None" "only 2 2 \<noteq> None" by (simp_all add: only_def)
  from failed_write_rolls_back_to_last_commit
      [where c = session2 and raises = "only 0" and dflt = at_t0 and now = t1, OF a]
    failed_write_rolls_back_to_last_commit
      [where c = session2 and raises = "only 2" and dflt = at_t0 and now = t1, OF a] a b
  show ?thesis by blast
qed

text \<open>In the example run, when the update of the source raises, the step leaves the
  lowered watermark in the persistent state.\<close>

theorem source_update_failure_keeps_watermark_update:
  "committed (snd (update_control_table_stg (only 2) session2)) \<noteq> committed session2"
  by code_simp

text \<open>
  C8 (what a step does with an error). For every step and every error raised by one of
  its statements, the step catches the error at its boundary, logs one entry at level
  ERROR, made of the step's message and the text of the error, and calls rollback. It
  does not raise the error again: when the rollback succeeds the step returns normally
  with no transaction open, and only an error raised by the rollback itself leaves the
  step. A step in which no statement raises returns and logs no error. When the
  rollbacks succeed the main flow returns normally, and its final session is the one
  reached by running all six steps in order, each on the session the one before left,
  whatever errors were caught on the way.
\<close>

theorem errors_logged_not_raised:
  "catches ''Error inserting data into staging: '' [0, 1] 2 raises c
     (insert_data_to_staging raises dflt c) \<and>
   catches ''Error inserting data into control table: '' [0, 1] 2 raises c
     (insert_data_to_control raises now c) \<and>
   catches ''Error updating control table after staging: '' [0, 1, 2, 3] 4 raises c
     (update_control_table_stg raises c) \<and>
   catches ''Error inserting new data into staging: '' [0, 1] 2 raises c
     (insert_into_stg raises dflt c) \<and>
   catches ''Error pushing data to target table: '' [0, 1] 2 raises c
     (push_to_target_table raises dflt c) \<and>
   catches ''Error updating control table after target load: '' [0] 1 raises c
     (update_control_table_tgt raises c) \<and>
   (rollbacks_succeed all_raises \<longrightarrow>
      main all_raises dflt now c =
        (Inr (), snd (update_control_table_tgt (all_raises 5)
          (snd (push_to_target_table (all_raises 4) dflt
            (snd (insert_into_stg (all_raises 3) dflt
              (snd (update_control_table_stg (all_raises 2)
                (snd (insert_data_to_control (all_raises 1) now
                  (snd (insert_data_to_staging (all_raises 0) dflt c)))))))))))))"
  using catches_insert_data_to_staging catches_insert_data_to_control
    catches_update_control_table_stg catches_insert_into_stg catches_push_to_target_table
    catches_update_control_table_tgt main_runs_every_step
  by blast

text \<open>In the example the first statement of every step loses the connection: each step
  returns, the main flow returns, and the log holds the six errors.\<close>

theorem errors_logged_not_raised_witness:
  "rollbacks_succeed (\<lambda>n. only 0) \<and>
   catches ''Error inserting data into staging: '' [0, 1] 2 (only 0) session0
     (insert_data_to_staging (only 0) at_t0 session0) \<and>
   first_error (only 0) [0, 1] = Some lost_connection \<and>
   fst (insert_data_to_staging (only 0) at_t0 session0) = Inr () \<and>
   errors_logged (snd (insert_data_to_staging (only 0) at_t0 session0)) =
     [(ERROR, ''Error inserting data into staging: Lost connection to MySQL server during query'')] \<and>
   fst (main (\<lambda>n. only 0) at_t0 t1 session0) = Inr () \<and>
   length (errors_logged (snd (main (\<lambda>n. only 0) at_t0 t1 session0))) = 6"
proof -
  have a: "rollbacks_succeed (\<lambda>n. only 0)" by (simp add: rollbacks_succeed_def only_def)
  have b: "first_error (only 0) [0, 1] = Some lost_connection" by (simp add: only_def)
  have c: "fst (insert_data_to_staging (only 0) at_t0 session0) = Inr ()" by code_simp
  have d: "errors_logged (snd (insert_data_to_staging (only 0) at_t0 session0)) =
     [(ERROR, ''Error inserting data into staging: Lost connection to MySQL server during query'')]"
    by code_simp
  have e: "length (errors_logged (snd (main (\<lambda>n. only 0) at_t0 t1 session0))) = 6"
    by code_simp
  from errors_logged_not_raised
    [where raises = "only 0" and dflt = at_t0 and c = session0 and now = t1
       and all_raises = "\<lambda>n. only 0"] a
  have "catches ''Error inserting data into staging: '' [0, 1] 2 (only 0) session0
     (insert_data_to_staging (only 0) at_t0 session0)"
    and "fst (main (\<lambda>n. only 0) at_t0 t1 session0) = Inr ()"
    by simp_all
  with a b c d e show ?thesis by blast
qed

text \<open>The INSERT of the first step raises; the step returns normally.\<close>

theorem storage_error_not_raised_again:
  "fst (execute (only 0 0) (insert_stg_from_src at_t0) session0) = Inl lost_connection \<and>
   fst (insert_data_to_staging (only 0) at_t0 session0) = Inr ()"
  by code_simp

text \<open>
  C9 (merge). After a merge whose statement succeeds, on a target with one row per key:
  the target still has one row per key; its keys are the keys it had and the keys of
  staging; a row whose key is in staging carries the attributes of the last staging row
  for that key, and every other row is a row the target had before; and a second merge
  with the same staging content leaves the persistent state as it is.
\<close>

theorem merge_upserts:
  assumes "clean c" and "raises 0 = None"
    and "distinct (map col1_id (tgt_jun25 (committed c)))"
  shows "distinct (map col1_id (tgt_jun25 (committed (snd (push_to_target_table raises dflt c))))) \<and>
         col1_id ` set (tgt_jun25 (committed (snd (push_to_target_table raises dflt c)))) =
           col1_id ` set (tgt_jun25 (committed c)) \<union> col1_id ` set (stg_jun25 (committed c)) \<and>
         (\<forall>t \<in> set (tgt_jun25 (committed (snd (push_to_target_table raises dflt c)))).
            case last_staged (col1_id t) (stg_jun25 (committed c)) of
              None \<Rightarrow> t \<in> set (tgt_jun25 (committed c))
            | Some s \<Rightarrow> col2_desc t = col2_desc s \<and> col3_desc t = col3_desc s) \<and>
         committed (snd (push_to_target_table raises' dflt
             (snd (push_to_target_table raises dflt c)))) =
           committed (snd (push_to_target_table raises dflt c))"
proof -
  let ?c' = "snd (push_to_target_table raises dflt c)"
  from assms(1,2) have c': "committed ?c' = upsert_tgt_from_stg dflt (committed c)"
    by (simp add: clean_def committed_push_to_target_table)
  have p: "pending ?c' = committed ?c'"
    using clean_after_push_to_target_table [OF assms(1), of raises dflt] by (simp add: clean_def)
  have idem: "upsert_tgt_from_stg dflt (upsert_tgt_from_stg dflt (committed c)) =
        upsert_tgt_from_stg dflt (committed c)"
    by (simp add: upsert_tgt_from_stg_def fold_upsert_idem)
  have "committed (snd (push_to_target_table raises' dflt ?c')) =
      (if raises' 0 \<noteq> None then committed ?c'
       else upsert_tgt_from_stg dflt (pending ?c'))"
    by (rule committed_push_to_target_table)
  also have "\<dots> = committed ?c'"
    by (simp only: p c' idem if_cancel)
  finally have "committed (snd (push_to_target_table raises' dflt ?c')) = committed ?c'" .
  moreover have "distinct (map col1_id (tgt_jun25 (committed ?c')))"
    using assms(3) by (simp add: c' upsert_tgt_from_stg_def fold_upsert_distinct)
  moreover have "col1_id ` set (tgt_jun25 (committed ?c')) =
      col1_id ` set (tgt_jun25 (committed c)) \<union> col1_id ` set (stg_jun25 (committed c))"
    by (simp add: c' upsert_tgt_from_stg_def fold_upsert_keys)
  moreover have "\<forall>t \<in> set (tgt_jun25 (committed ?c')).
        case last_staged (col1_id t) (stg_jun25 (committed c)) of
          None \<Rightarrow> t \<in> set (tgt_jun25 (committed c))
        | Some s \<Rightarrow> col2_desc t = col2_desc s \<and> col3_desc t = col3_desc s"
    using fold_upsert_member [of _ dflt "stg_jun25 (committed c)" "tgt_jun25 (committed c)"]
    by (simp add: c' upsert_tgt_from_stg_def)
  ultimately show ?thesis by blast
qed

theorem merge_upserts_witness:
  "clean session4 \<and> never 0 = None \<and> distinct (map col1_id (tgt_jun25 (committed session4))) \<and>
   distinct (map col1_id (tgt_jun25 (committed (snd (push_to_target_table never at_t0 session4))))) \<and>
   committed (snd (push_to_target_table never at_t0
       (snd (push_to_target_table never at_t0 session4)))) =
     committed (snd (push_to_target_table never at_t0 session4))"
proof -
  have a: "clean session4" by (rule clean_session4)
  have b: "never 0 = None" by (simp add: never_def)
  have c: "distinct (map col1_id (tgt_jun25 (committed session4)))" by code_simp
  from merge_upserts
    [where c = session4 and raises = never and dflt = at_t0 and raises' = never, OF a b c] a b c
  show ?thesis by blast
qed

end
